theory Spec2Isabelle
  imports Main "HOL-Library.Sublist" "HOL-Library.Word"
begin

section \<open>Text, bytes and paths\<close>

text \<open>
  A Python \<open>str\<close> is a sequence of Unicode code points and \<open>len\<close> counts code
  points, so a \<open>str\<close> is modelled as a list of code points (natural numbers). The
  function \<open>u\<close> embeds an ASCII literal of the source.
\<close>

type_synonym str = "nat list"

definition u :: "string \<Rightarrow> str" where
  "u s = map of_char s"

definition NL :: nat where
  "NL = 10"

definition SLASH :: nat where
  "SLASH = 47"

text \<open>\<open>s.startswith(p)\<close> and \<open>s.endswith(p)\<close>.\<close>

definition startswith :: "str \<Rightarrow> str \<Rightarrow> bool" where
  "startswith s p = (take (length p) s = p)"

definition endswith :: "str \<Rightarrow> str \<Rightarrow> bool" where
  "endswith s p = (length p \<le> length s \<and> drop (length s - length p) s = p)"

text \<open>\<open>s.split("/")\<close>: the pieces between separators, empty pieces kept.\<close>

fun split_sep :: "nat \<Rightarrow> str \<Rightarrow> str list" where
  "split_sep sep [] = [[]]"
| "split_sep sep (c # cs) =
     (if c = sep then [] # split_sep sep cs
      else (case split_sep sep cs of
              [] \<Rightarrow> [[c]]
            | p # ps \<Rightarrow> (c # p) # ps))"

text \<open>\<open>"/".join(comps)\<close>.\<close>

fun join_sep :: "nat \<Rightarrow> str list \<Rightarrow> str" where
  "join_sep sep [] = []"
| "join_sep sep [p] = p"
| "join_sep sep (p # q # ps) = p @ [sep] @ join_sep sep (q # ps)"

subsection \<open>\<open>posixpath\<close>\<close>

text \<open>
  The path functions of the standard library that the collection uses, on POSIX
  (\<open>os.sep = "/"\<close>, so \<open>replace(os.sep, "/")\<close> is the identity). They are purely
  lexical. \<open>path_join\<close> is \<open>os.path.join\<close> of two components.
\<close>

definition path_join :: "str \<Rightarrow> str \<Rightarrow> str" where
  "path_join a b =
     (if startswith b [SLASH] then b
      else if a = [] \<or> endswith a [SLASH] then a @ b
      else a @ [SLASH] @ b)"

text \<open>
  The component loop of \<open>normpath\<close>: empty and \<open>.\<close> components are dropped, \<open>..\<close>
  removes the component before it, is kept at the front of a relative path and is
  dropped at the root of an absolute one. \<open>acc\<close> is \<open>new_comps\<close>.
\<close>

fun norm_comps :: "bool \<Rightarrow> str list \<Rightarrow> str list \<Rightarrow> str list" where
  "norm_comps initial_slashes acc [] = acc"
| "norm_comps initial_slashes acc (part # comps) =
     (if part = [] \<or> part = u ''.'' then norm_comps initial_slashes acc comps
      else if part \<noteq> u ''..'' \<or> (\<not> initial_slashes \<and> acc = [])
              \<or> (acc \<noteq> [] \<and> last acc = u ''..'')
        then norm_comps initial_slashes (acc @ [part]) comps
      else if acc \<noteq> [] then norm_comps initial_slashes (butlast acc) comps
      else norm_comps initial_slashes acc comps)"

text \<open>
  \<open>[x for x in abspath(path).split("/") if x]\<close>: the components of the absolute,
  normalised form of \<open>path\<close>, with \<open>cwd\<close> the current directory. The number of
  leading slashes that \<open>normpath\<close> keeps does not show in the components.
\<close>

definition abs_comps :: "str \<Rightarrow> str \<Rightarrow> str list" where
  "abs_comps cwd path =
     (let p = (if startswith path [SLASH] then path else path_join cwd path)
      in norm_comps (startswith p [SLASH]) [] (split_sep SLASH p))"

fun commonprefix :: "str list \<Rightarrow> str list \<Rightarrow> str list" where
  "commonprefix (x # xs) (y # ys) = (if x = y then x # commonprefix xs ys else [])"
| "commonprefix xs ys = []"

text \<open>
  \<open>os.path.relpath(path, start)\<close> for a non-empty \<open>path\<close>; on the empty path the
  library raises \<open>ValueError\<close>, which is modelled where the call can receive it.
\<close>

definition relpath :: "str \<Rightarrow> str \<Rightarrow> str \<Rightarrow> str" where
  "relpath cwd path start =
     (let start_list = abs_comps cwd start;
          path_list = abs_comps cwd path;
          i = length (commonprefix start_list path_list);
          rel_list = replicate (length start_list - i) (u ''..'') @ drop i path_list
      in if rel_list = [] then u ''.'' else join_sep SLASH rel_list)"

section \<open>The pattern store (\<open>config.py\<close>)\<close>

text \<open>
  The configuration is the JSON object with the two lists. Both keys are present in
  every configuration the tool writes.
\<close>

record config =
  include_patterns :: "str list"
  explicit_files :: "str list"

text \<open>\<open>is_glob_pattern\<close>: one of the characters \<open>* ? [ ]\<close> occurs in the pattern.\<close>

definition is_glob_pattern :: "str \<Rightarrow> bool" where
  "is_glob_pattern pattern = list_ex (\<lambda>char. char \<in> set pattern) (u ''*?[]'')"

text \<open>\<open>str.isspace\<close> of one character, and \<open>str.strip()\<close>.\<close>

definition isspace :: "nat \<Rightarrow> bool" where
  "isspace c \<longleftrightarrow>
     (9 \<le> c \<and> c \<le> 13) \<or> (28 \<le> c \<and> c \<le> 32) \<or> c = 133 \<or> c = 160 \<or> c = 5760
     \<or> (8192 \<le> c \<and> c \<le> 8202) \<or> c = 8232 \<or> c = 8233 \<or> c = 8239 \<or> c = 8287
     \<or> c = 12288"

definition strip :: "str \<Rightarrow> str" where
  "strip s = rev (dropWhile isspace (rev (dropWhile isspace s)))"

text \<open>
  What \<open>add_patterns\<close> takes from its surroundings. \<open>resolve\<close> is
  \<open>str(Path(p).resolve())\<close>, which depends on the file system and raises on a symbolic
  link loop (\<open>None\<close>). \<open>print_ok\<close> tells whether \<open>print\<close> of a message returns
  (it raises when the output stream is closed or cannot encode the text).
  \<open>write_outcome\<close> is what the write in \<open>save_config\<close> does to the configuration
  file: it is written; or \<open>open\<close> fails and the file stays as it was; or the file is
  opened, which empties it, and the write fails. \<open>save_config\<close> catches the
  exception in the last two cases.
\<close>

datatype write_result = Written | Refused | Truncated

record store_env =
  resolve :: "str \<Rightarrow> str option"
  print_ok :: "str \<Rightarrow> bool"
  write_outcome :: "config \<Rightarrow> write_result"

text \<open>
  The state of the loop of \<open>add_patterns\<close>: the configuration being edited and the two
  report lists.
\<close>

record add_state =
  cfg :: config
  added_globs :: "str list"
  added_files :: "str list"

text \<open>The two messages printed in the loop; 39 is the apostrophe.\<close>

definition glob_info :: "str \<Rightarrow> str" where
  "glob_info normalized =
     u ''Info: Glob pattern '' @ [39] @ normalized @ [39] @ u '' is already in the list.''"

definition file_info :: "str \<Rightarrow> str" where
  "file_info absolute_path =
     u ''Info: File '' @ [39] @ absolute_path @ [39] @ u '' is already in the list.''"

text \<open>
  One iteration of the loop of \<open>add_patterns\<close>. \<open>None\<close> is an exception, which nothing
  in \<open>add_patterns\<close> or its caller catches.
\<close>

definition add_pattern :: "store_env \<Rightarrow> add_state \<Rightarrow> str \<Rightarrow> add_state option" where
  "add_pattern e s pattern =
     (let normalized = strip pattern in
      if is_glob_pattern normalized then
        (if normalized \<notin> set (include_patterns (cfg s))
         then Some (s\<lparr>cfg := (cfg s)\<lparr>include_patterns := include_patterns (cfg s) @ [normalized]\<rparr>,
                      added_globs := added_globs s @ [normalized]\<rparr>)
         else if print_ok e (glob_info normalized) then Some s else None)
      else
        (case resolve e normalized of
           None \<Rightarrow> None
         | Some absolute_path \<Rightarrow>
             if absolute_path \<notin> set (explicit_files (cfg s))
             then Some (s\<lparr>cfg := (cfg s)\<lparr>explicit_files := explicit_files (cfg s) @ [absolute_path]\<rparr>,
                          added_files := added_files s @ [absolute_path]\<rparr>)
             else if print_ok e (file_info absolute_path) then Some s else None))"

fun add_loop :: "store_env \<Rightarrow> add_state \<Rightarrow> str list \<Rightarrow> add_state option" where
  "add_loop e s [] = Some s"
| "add_loop e s (pattern # patterns) =
     (case add_pattern e s pattern of
        None \<Rightarrow> None
      | Some s' \<Rightarrow> add_loop e s' patterns)"

text \<open>
  The configuration that \<open>load_config\<close> reads after \<open>save_config(config)\<close>, when it
  read \<open>loaded\<close> before. A file that was emptied, or written in part, is not JSON, and
  \<open>load_config\<close> then returns the two empty lists.
\<close>

definition save_config :: "store_env \<Rightarrow> config \<Rightarrow> config \<Rightarrow> config" where
  "save_config e loaded c =
     (case write_outcome e c of
        Written \<Rightarrow> c
      | Refused \<Rightarrow> loaded
      | Truncated \<Rightarrow> \<lparr>include_patterns = [], explicit_files = []\<rparr>)"

text \<open>
  \<open>add_patterns\<close> on the configuration \<open>loaded\<close> that \<open>load_config\<close> returns: the
  stored configuration after the call. When the loop raises, \<open>save_config\<close> is not
  reached and the store stays as it was. The report printed after \<open>save_config\<close>
  does not touch the store.
\<close>

definition initial_add_state :: "config \<Rightarrow> add_state" where
  "initial_add_state loaded = \<lparr>cfg = loaded, added_globs = [], added_files = []\<rparr>"

definition add_patterns :: "store_env \<Rightarrow> config \<Rightarrow> str list \<Rightarrow> config" where
  "add_patterns e loaded patterns =
     (case add_loop e (initial_add_state loaded) patterns of
        None \<Rightarrow> loaded
      | Some s \<Rightarrow> save_config e loaded (cfg s))"

text \<open>
  An input of \<open>add\<close> is stored when its glob string, or the resolved path it names, is
  in the configuration.
\<close>

definition stored :: "store_env \<Rightarrow> config \<Rightarrow> str \<Rightarrow> bool" where
  "stored e c p =
     (if is_glob_pattern (strip p) then strip p \<in> set (include_patterns c)
      else (case resolve e (strip p) of
              None \<Rightarrow> False
            | Some absolute_path \<Rightarrow> absolute_path \<in> set (explicit_files c)))"

text \<open>
  \<open>Path.resolve\<close> on a file system without symbolic links: the absolute, normalised
  path.
\<close>

definition lexical_resolve :: "str \<Rightarrow> str \<Rightarrow> str" where
  "lexical_resolve cwd p = SLASH # join_sep SLASH (abs_comps cwd p)"

text \<open>
  Two surroundings for the concrete runs below, with current directory \<open>cwd\<close>. In
  \<open>plain_store\<close> there is no symbolic link, every message is printed and the file is
  written. \<open>loop_store\<close> differs in that \<open>loop\<close> is a symbolic link to itself.
\<close>

definition plain_store :: "str \<Rightarrow> store_env" where
  "plain_store cwd =
     \<lparr>resolve = (\<lambda>p. Some (lexical_resolve cwd p)), print_ok = (\<lambda>message. True),
      write_outcome = (\<lambda>c. Written)\<rparr>"

definition loop_store :: "str \<Rightarrow> store_env" where
  "loop_store cwd =
     \<lparr>resolve = (\<lambda>p. if p = u ''loop'' then None else Some (lexical_resolve cwd p)),
      print_ok = (\<lambda>message. True), write_outcome = (\<lambda>c. Written)\<rparr>"

section \<open>Reading a file as text\<close>

text \<open>
  Every read of the collection is \<open>open(file_path, "r", encoding="utf-8",
  errors="ignore").read()\<close>. The bytes of a file are numbers below 256. \<open>utf8_scan\<close> is
  what the UTF-8 codec finds at the head of its input: a code point with the number of
  bytes that encode it, or a malformed run with its length (an invalid start byte, or a
  lead byte with the continuation bytes that were valid before the sequence broke or the
  input ended). The error handler then decides: \<open>strict\<close> raises, \<open>ignore\<close> drops the
  run, \<open>replace\<close> puts U+FFFD in its place. The source chooses \<open>ignore\<close>.
\<close>

datatype errors = Strict | Ignore | Replace

datatype scan = Char nat nat | Malformed nat

definition is_cont :: "nat \<Rightarrow> bool" where
  "is_cont b \<longleftrightarrow> 0x80 \<le> b \<and> b < 0xC0"

fun utf8_scan :: "nat list \<Rightarrow> scan" where
  "utf8_scan [] = Malformed 0"
| "utf8_scan (ch # rest) =
     (if ch < 0x80 then Char ch 1
      else if ch < 0xC2 then Malformed 1
      else if ch < 0xE0 then
        (case rest of
           [] \<Rightarrow> Malformed 1
         | ch2 # _ \<Rightarrow>
             if is_cont ch2 then Char ((ch - 0xC0) * 64 + (ch2 - 0x80)) 2
             else Malformed 1)
      else if ch < 0xF0 then
        (case rest of
           [] \<Rightarrow> Malformed 1
         | ch2 # rest2 \<Rightarrow>
             if \<not> is_cont ch2 \<or> (if ch2 < 0xA0 then ch = 0xE0 else ch = 0xED)
             then Malformed 1
             else (case rest2 of
                     [] \<Rightarrow> Malformed 2
                   | ch3 # _ \<Rightarrow>
                       if is_cont ch3
                       then Char ((ch - 0xE0) * 4096 + (ch2 - 0x80) * 64 + (ch3 - 0x80)) 3
                       else Malformed 2))
      else if ch < 0xF5 then
        (case rest of
           [] \<Rightarrow> Malformed 1
         | ch2 # rest2 \<Rightarrow>
             if \<not> is_cont ch2 \<or> (if ch2 < 0x90 then ch = 0xF0 else ch = 0xF4)
             then Malformed 1
             else (case rest2 of
                     [] \<Rightarrow> Malformed 2
                   | ch3 # rest3 \<Rightarrow>
                       if \<not> is_cont ch3 then Malformed 2
                       else (case rest3 of
                               [] \<Rightarrow> Malformed 3
                             | ch4 # _ \<Rightarrow>
                                 if is_cont ch4
                                 then Char ((ch - 0xF0) * 262144 + (ch2 - 0x80) * 4096
                                            + (ch3 - 0x80) * 64 + (ch4 - 0x80)) 4
                                 else Malformed 3)))
      else Malformed 1)"

text \<open>Decoding; \<open>None\<close> is \<open>UnicodeDecodeError\<close>.\<close>

fun decode :: "errors \<Rightarrow> nat list \<Rightarrow> str option" where
  "decode h [] = Some []"
| "decode h (b # bs) =
     (case utf8_scan (b # bs) of
        Char c n \<Rightarrow> map_option ((#) c) (decode h (drop (n - 1) bs))
      | Malformed n \<Rightarrow>
          (case h of
             Strict \<Rightarrow> None
           | Ignore \<Rightarrow> decode h (drop (n - 1) bs)
           | Replace \<Rightarrow> map_option ((#) 0xFFFD) (decode h (drop (n - 1) bs))))"

text \<open>Text mode translates \<open>\r\n\<close> and \<open>\r\<close> to \<open>\n\<close> (universal newlines).\<close>

fun translate_newlines :: "str \<Rightarrow> str" where
  "translate_newlines [] = []"
| "translate_newlines [c] = (if c = 13 then [NL] else [c])"
| "translate_newlines (c # d # cs) =
     (if c = 13 \<and> d = NL then NL # translate_newlines cs
      else if c = 13 then NL # translate_newlines (d # cs)
      else c # translate_newlines (d # cs))"

text \<open>
  \<open>file_bytes\<close> gives the bytes of a file, or the text of the exception that opening
  or reading it raises (the \<open>except Exception\<close> branch of the source). \<open>read_text\<close> is
  the \<open>try\<close> block of the source: the content, or the text of the exception.
\<close>

definition read_text :: "(str \<Rightarrow> str + nat list) \<Rightarrow> str \<Rightarrow> str + str" where
  "read_text file_bytes file_path =
     (case file_bytes file_path of
        Inl exc \<Rightarrow> Inl exc
      | Inr bs \<Rightarrow>
          (case decode Ignore bs of
             None \<Rightarrow> Inl (u ''UnicodeDecodeError'')
           | Some text \<Rightarrow> Inr (translate_newlines text)))"

section \<open>The collection engine (\<open>copier.py\<close>)\<close>

text \<open>
  What the run reads from outside the program; it does not change during a run. A
  directory is the list of its file names and of its subdirectories, as \<open>os.walk\<close>
  lists them (a symbolic link to a directory is listed and not entered, like a
  subdirectory without entries). \<open>ignore_spec\<close> is \<open>spec.match_file\<close> of the \<open>PathSpec\<close>
  that \<open>load_gitignore\<close> returns, \<open>fnmatch\<close> is \<open>fnmatch.fnmatch(name, pattern)\<close>,
  \<open>resolve_path\<close> is \<open>str(Path(p).resolve())\<close> (\<open>None\<close> when it raises, as on a symbolic
  link loop), \<open>is_file\<close> is \<open>Path(p).is_file()\<close>, and \<open>stderr_ok\<close> tells whether
  \<open>print(message, file=sys.stderr)\<close> returns.
\<close>

datatype dir = Dir "str list" "(str \<times> dir) list"

record env =
  cwd :: str
  root :: dir
  ignore_spec :: "str \<Rightarrow> bool"
  fnmatch :: "str \<Rightarrow> str \<Rightarrow> bool"
  resolve_path :: "str \<Rightarrow> str option"
  is_file :: "str \<Rightarrow> bool"
  file_bytes :: "str \<Rightarrow> str + nat list"
  stderr_ok :: "str \<Rightarrow> bool"

text \<open>
  The arguments of \<open>collect_file_contents\<close>. A limit is \<open>None\<close> or a Python integer;
  \<open>encoding\<close> is \<open>encoding.encode\<close>, which yields the tokens of a text or raises
  (\<open>None\<close>), as it does on a text that holds a special token.
\<close>

record args =
  patterns :: "str list"
  files :: "str list"
  max_files :: "int option"
  max_chars :: "int option"
  max_tokens :: "int option"
  encoding :: "str \<Rightarrow> nat list option"

text \<open>
  The local variables of \<open>collect_file_contents\<close> that the loops update
  (\<open>output_str\<close> is the variable \<open>output\<close>).
\<close>

record state =
  output_str :: str
  total_chars_copied :: int
  total_tokens_copied :: int
  total_files_added :: int
  total_lines_added :: int
  total_files_skipped :: int
  total_lines_skipped :: int
  skipped_files :: "str list"
  included_files :: "str set"

datatype flow = Continue | Break

text \<open>
  The exceptions that leave the run, named after the call that raises: \<open>relpath\<close>,
  \<open>Path.resolve\<close>, \<open>print\<close>, \<open>encoding.encode\<close>, the lookup of the encoding, and
  \<open>pyperclip.copy\<close>.
\<close>

datatype error = RelpathError | ResolveError | PrintError | EncodeError | EncodingLoadError
  | ClipboardError

definition get_token_count :: "str \<Rightarrow> (str \<Rightarrow> nat list option) \<Rightarrow> error + int" where
  "get_token_count text enc =
     (case enc text of
        None \<Rightarrow> Inl EncodeError
      | Some tokens \<Rightarrow> Inr (int (length tokens)))"

definition should_ignore :: "str \<Rightarrow> (str \<Rightarrow> bool) \<Rightarrow> bool" where
  "should_ignore relative_path spec = spec relative_path"

definition matches_include_patterns :: "(str \<Rightarrow> str \<Rightarrow> bool) \<Rightarrow> str \<Rightarrow> str list \<Rightarrow> bool" where
  "matches_include_patterns fnm relative_path pats = list_ex (\<lambda>pattern. fnm relative_path pattern) pats"

text \<open>The messages of the run; 39 is the apostrophe.\<close>

definition quoted :: "str \<Rightarrow> str" where
  "quoted s = [39] @ s @ [39]"

definition skip_dir_msg :: "str \<Rightarrow> str" where
  "skip_dir_msg rel_dir_path =
     u ''Info: Skipping directory '' @ [39] @ rel_dir_path @ [SLASH, 39]
     @ u '' as it'' @ [39] @ u ''s ignored by .gitignore.''"

definition ignored_msg :: "str \<Rightarrow> str" where
  "ignored_msg rel_file_posix =
     u ''Info: '' @ quoted rel_file_posix @ u '' is ignored by .gitignore. Skipping.''"

definition failed_read_msg :: "str \<Rightarrow> str \<Rightarrow> str" where
  "failed_read_msg rel_file_posix exc =
     [NL] @ u ''Failed to read '' @ quoted rel_file_posix @ u '': '' @ exc"

definition char_limit_msg :: "str \<Rightarrow> str" where
  "char_limit_msg rel_file_posix =
     [NL] @ u ''Info: Adding '' @ quoted rel_file_posix
     @ u '' would exceed character limit. Skipping.''"

definition token_limit_msg :: "str \<Rightarrow> str" where
  "token_limit_msg rel_file_posix =
     [NL] @ u ''Info: Adding '' @ quoted rel_file_posix
     @ u '' would exceed token limit. Skipping.''"

definition missing_msg :: "str \<Rightarrow> str" where
  "missing_msg rel_file_posix =
     u ''Warning: Explicit file '' @ quoted rel_file_posix @ u '' does not exist. Skipping.''"

text \<open>The fenced block of a file, and \<open>content.count("\n") + 1\<close>.\<close>

definition format_block :: "str \<Rightarrow> str \<Rightarrow> str" where
  "format_block rel_file_posix content =
     u ''```'' @ rel_file_posix @ [NL] @ content @ [NL] @ u ''```'' @ [NL, NL]"

definition line_count :: "str \<Rightarrow> int" where
  "line_count content = int (count_list content NL) + 1"

text \<open>\<open>limit is not None and value > limit\<close>, and the same with \<open>>=\<close>.\<close>

definition exceeds :: "int option \<Rightarrow> int \<Rightarrow> bool" where
  "exceeds limit v = (case limit of None \<Rightarrow> False | Some m \<Rightarrow> v > m)"

definition reached :: "int option \<Rightarrow> int \<Rightarrow> bool" where
  "reached limit v = (case limit of None \<Rightarrow> False | Some m \<Rightarrow> v \<ge> m)"

definition record_skip :: "state \<Rightarrow> str \<Rightarrow> str \<Rightarrow> state" where
  "record_skip st rel_file_posix content =
     st\<lparr>skipped_files := skipped_files st @ [rel_file_posix],
        total_files_skipped := total_files_skipped st + 1,
        total_lines_skipped := total_lines_skipped st + line_count content\<rparr>"

definition append_file :: "state \<Rightarrow> str \<Rightarrow> str \<Rightarrow> str \<Rightarrow> int \<Rightarrow> state" where
  "append_file st rel_file_posix content file_content file_tokens =
     st\<lparr>output_str := output_str st @ file_content,
        total_chars_copied := total_chars_copied st + int (length file_content),
        total_tokens_copied := total_tokens_copied st + file_tokens,
        total_files_added := total_files_added st + 1,
        total_lines_added := total_lines_added st + line_count content,
        included_files := insert rel_file_posix (included_files st)\<rparr>"

text \<open>
  The part of the loop body that both loops share word for word (lines 150 to 197 and
  236 to 280): format the block and count its tokens, apply the character limit, then
  the token limit, else append, and then test the three limits for the \<open>break\<close>.
\<close>

definition add_content :: "env \<Rightarrow> args \<Rightarrow> state \<Rightarrow> str \<Rightarrow> str \<Rightarrow> error + state \<times> flow" where
  "add_content e a st rel_file_posix content =
     (let file_content = format_block rel_file_posix content;
          file_length = int (length file_content)
      in case get_token_count file_content (encoding a) of
           Inl err \<Rightarrow> Inl err
         | Inr file_tokens \<Rightarrow>
             if exceeds (max_chars a) (total_chars_copied st + file_length)
             then (if stderr_ok e (char_limit_msg rel_file_posix)
                   then Inr (record_skip st rel_file_posix content, Continue)
                   else Inl PrintError)
             else if exceeds (max_tokens a) (total_tokens_copied st + file_tokens)
             then (if stderr_ok e (token_limit_msg rel_file_posix)
                   then Inr (record_skip st rel_file_posix content, Continue)
                   else Inl PrintError)
             else (let st' = append_file st rel_file_posix content file_content file_tokens
                   in Inr (st', if reached (max_files a) (total_files_added st')
                                   \<or> reached (max_chars a) (total_chars_copied st')
                                   \<or> reached (max_tokens a) (total_tokens_copied st')
                                then Break else Continue)))"

definition excluded_name :: "str \<Rightarrow> bool" where
  "excluded_name rel_file_posix \<longleftrightarrow>
     rel_file_posix = u ''.gitignore'' \<or> startswith rel_file_posix (u ''.git/'')"

text \<open>
  \<open>explicit_files_abs\<close> (line 81): the set of the resolved explicit files; the first
  path that does not resolve raises.
\<close>

fun resolve_all :: "(str \<Rightarrow> str option) \<Rightarrow> str list \<Rightarrow> error + str list" where
  "resolve_all r [] = Inr []"
| "resolve_all r (f # fs) =
     (case r f of
        None \<Rightarrow> Inl ResolveError
      | Some p \<Rightarrow> (case resolve_all r fs of
                     Inl err \<Rightarrow> Inl err
                   | Inr ps \<Rightarrow> Inr (p # ps)))"

definition explicit_files_abs :: "env \<Rightarrow> args \<Rightarrow> error + str set" where
  "explicit_files_abs e a =
     (case resolve_all (resolve_path e) (files a) of
        Inl err \<Rightarrow> Inl err
      | Inr ps \<Rightarrow> Inr (set ps))"

text \<open>
  The end of the loop body after the membership tests (lines 142 to 197 and 228 to
  280): read the file, report a failed read and go on, else handle the content.
\<close>

definition read_and_add :: "env \<Rightarrow> args \<Rightarrow> state \<Rightarrow> str \<Rightarrow> str \<Rightarrow> error + state \<times> flow" where
  "read_and_add e a st file_path rel_file_posix =
     (case read_text (file_bytes e) file_path of
        Inl exc \<Rightarrow>
          if stderr_ok e (failed_read_msg rel_file_posix exc) then Inr (st, Continue)
          else Inl PrintError
      | Inr content \<Rightarrow> add_content e a st rel_file_posix content)"

text \<open>
  One file of the walk (lines 111 to 197), with \<open>abs_set\<close> the set \<open>explicit_files_abs\<close>.
  The path that \<open>os.walk\<close> gives is never empty, so \<open>relpath\<close> does not raise here.
\<close>

definition walk_file ::
  "env \<Rightarrow> args \<Rightarrow> str set \<Rightarrow> str \<Rightarrow> state \<Rightarrow> str \<Rightarrow> error + state \<times> flow" where
  "walk_file e a abs_set dirpath st filename =
     (let file_path = path_join dirpath filename;
          rel_file_posix = relpath (cwd e) file_path (cwd e)
      in if excluded_name rel_file_posix then Inr (st, Continue)
         else (case resolve_path e file_path of
                 None \<Rightarrow> Inl ResolveError
               | Some file_abs_path \<Rightarrow>
                   if should_ignore rel_file_posix (ignore_spec e) \<and> file_abs_path \<notin> abs_set
                   then (if stderr_ok e (ignored_msg rel_file_posix) then Inr (st, Continue)
                         else Inl PrintError)
                   else if rel_file_posix \<in> included_files st then Inr (st, Continue)
                   else if \<not> matches_include_patterns (fnmatch e) rel_file_posix (patterns a)
                           \<and> file_abs_path \<notin> abs_set
                   then Inr (st, Continue)
                   else read_and_add e a st file_path rel_file_posix))"

text \<open>The loop over the files of one directory; \<open>Break\<close> leaves this loop only.\<close>

fun walk_files :: "env \<Rightarrow> args \<Rightarrow> str set \<Rightarrow> str \<Rightarrow> state \<Rightarrow> str list \<Rightarrow> error + state" where
  "walk_files e a abs_set dirpath st [] = Inr st"
| "walk_files e a abs_set dirpath st (filename # filenames) =
     (case walk_file e a abs_set dirpath st filename of
        Inl err \<Rightarrow> Inl err
      | Inr (st', Break) \<Rightarrow> Inr st'
      | Inr (st', Continue) \<Rightarrow> walk_files e a abs_set dirpath st' filenames)"

text \<open>
  The pruning of \<open>dirnames\<close> (lines 85 to 108): \<open>.git\<close> is removed, then every name
  whose path with a trailing slash the ignore rules match; each of these is reported.
\<close>

definition rel_dir_of :: "env \<Rightarrow> str \<Rightarrow> str" where
  "rel_dir_of e dirpath =
     (let rel_dir = relpath (cwd e) dirpath (cwd e) in if rel_dir = u ''.'' then [] else rel_dir)"

definition rel_dir_path_of :: "str \<Rightarrow> str \<Rightarrow> str" where
  "rel_dir_path_of rel_dir dirname =
     (if rel_dir \<noteq> [] then rel_dir @ [SLASH] @ dirname else dirname)"

definition dirs_to_remove :: "env \<Rightarrow> str \<Rightarrow> str list \<Rightarrow> str list" where
  "dirs_to_remove e rel_dir dirnames =
     filter (\<lambda>dirname. should_ignore (rel_dir_path_of rel_dir dirname @ [SLASH]) (ignore_spec e))
            dirnames"

definition prune_dirnames :: "env \<Rightarrow> str \<Rightarrow> str list \<Rightarrow> str list" where
  "prune_dirnames e rel_dir dirnames =
     (let dirnames1 = remove1 (u ''.git'') dirnames
      in foldl (\<lambda>ds dirname. remove1 dirname ds) dirnames1 (dirs_to_remove e rel_dir dirnames1))"

definition prune_reported :: "env \<Rightarrow> str \<Rightarrow> str list \<Rightarrow> bool" where
  "prune_reported e rel_dir dirnames =
     list_all (\<lambda>dirname. stderr_ok e (skip_dir_msg (rel_dir_path_of rel_dir dirname)))
              (dirs_to_remove e rel_dir (remove1 (u ''.git'') dirnames))"

text \<open>
  \<open>os.walk\<close>, top down: the triples it yields, in order. It descends into the names
  that the loop body left in \<open>dirnames\<close>. The pruning reads nothing that the loop body
  writes, so the sequence is computed before the loop runs; the loop stops consuming
  it when an exception leaves the run.
\<close>

function os_walk :: "env \<Rightarrow> str \<Rightarrow> dir \<Rightarrow> (str \<times> str list \<times> str list) list" where
  "os_walk e dirpath (Dir filenames subs) =
     (dirpath, map fst subs, filenames) #
     concat (map (\<lambda>dirname. case map_of subs dirname of
                               None \<Rightarrow> []
                             | Some d \<Rightarrow> os_walk e (path_join dirpath dirname) d)
                 (prune_dirnames e (rel_dir_of e dirpath) (map fst subs)))"
  by pat_completeness auto
termination
proof (relation "measure (\<lambda>(e, dirpath, d). size d)")
  show "wf (measure (\<lambda>(e, dirpath, d). size d))" by simp
next
  fix e :: env and dirpath :: str and filenames :: "str list" and subs :: "(str \<times> dir) list"
    and dirname :: str and d :: dir
  assume "map_of subs dirname = Some d"
  then have "(dirname, d) \<in> set subs" by (rule map_of_SomeD)
  then have "size d < Suc (size_list (size_prod (\<lambda>_. 0) size) subs)"
    by (induction subs) auto
  then show "((e, path_join dirpath dirname, d), (e, dirpath, Dir filenames subs))
             \<in> measure (\<lambda>(e, dirpath, d). size d)"
    by simp
qed

text \<open>The body of the outer loop for one triple, and the outer loop.\<close>

definition walk_dir ::
  "env \<Rightarrow> args \<Rightarrow> str set \<Rightarrow> state \<Rightarrow> str \<times> str list \<times> str list \<Rightarrow> error + state" where
  "walk_dir e a abs_set st triple =
     (case triple of (dirpath, dirnames, filenames) \<Rightarrow>
        if prune_reported e (rel_dir_of e dirpath) dirnames
        then walk_files e a abs_set dirpath st filenames
        else Inl PrintError)"

fun walk_dirs ::
  "env \<Rightarrow> args \<Rightarrow> str set \<Rightarrow> state \<Rightarrow> (str \<times> str list \<times> str list) list \<Rightarrow> error + state" where
  "walk_dirs e a abs_set st [] = Inr st"
| "walk_dirs e a abs_set st (triple # triples) =
     (case walk_dir e a abs_set st triple of
        Inl err \<Rightarrow> Inl err
      | Inr st' \<Rightarrow> walk_dirs e a abs_set st' triples)"

definition walk_all :: "env \<Rightarrow> args \<Rightarrow> str set \<Rightarrow> state \<Rightarrow> error + state" where
  "walk_all e a abs_set st = walk_dirs e a abs_set st (os_walk e (cwd e) (root e))"

text \<open>
  One explicit file of the second loop (lines 200 to 280). \<open>relpath\<close> raises
  \<open>ValueError\<close> on an empty path, and nothing catches it. \<open>relpath\<close> returns a
  normalised path, which \<open>Path(rel_file).as_posix()\<close> gives back as it is.
\<close>

definition explicit_file :: "env \<Rightarrow> args \<Rightarrow> state \<Rightarrow> str \<Rightarrow> error + state \<times> flow" where
  "explicit_file e a st file_path =
     (if file_path = [] then Inl RelpathError
      else (let rel_file_posix = relpath (cwd e) file_path (cwd e)
            in if excluded_name rel_file_posix then Inr (st, Continue)
               else (case resolve_path e file_path of
                       None \<Rightarrow> Inl ResolveError
                     | Some file_abs_path \<Rightarrow>
                         if rel_file_posix \<in> included_files st then Inr (st, Continue)
                         else if \<not> is_file e file_path
                         then (if stderr_ok e (missing_msg rel_file_posix) then Inr (st, Continue)
                               else Inl PrintError)
                         else read_and_add e a st file_path rel_file_posix)))"

fun explicit_loop :: "env \<Rightarrow> args \<Rightarrow> state \<Rightarrow> str list \<Rightarrow> error + state" where
  "explicit_loop e a st [] = Inr st"
| "explicit_loop e a st (file_path # rest) =
     (case explicit_file e a st file_path of
        Inl err \<Rightarrow> Inl err
      | Inr (st', Break) \<Rightarrow> Inr st'
      | Inr (st', Continue) \<Rightarrow> explicit_loop e a st' rest)"

record summary =
  files_added :: int
  chars_copied :: int
  tokens_copied :: int
  lines_added :: int
  files_skipped :: int
  lines_skipped :: int
  summary_skipped_files :: "str list"

definition initial_state :: state where
  "initial_state =
     \<lparr>output_str = u ''<code-sample>'' @ [NL], total_chars_copied = 0, total_tokens_copied = 0,
      total_files_added = 0, total_lines_added = 0, total_files_skipped = 0,
      total_lines_skipped = 0, skipped_files = [], included_files = {}\<rparr>"

definition summary_of :: "state \<Rightarrow> summary" where
  "summary_of st =
     \<lparr>files_added = total_files_added st, chars_copied = total_chars_copied st,
      tokens_copied = total_tokens_copied st, lines_added = total_lines_added st,
      files_skipped = total_files_skipped st, lines_skipped = total_lines_skipped st,
      summary_skipped_files = skipped_files st\<rparr>"

text \<open>The state when the two loops are over, and the pair that the function returns.\<close>

definition final_state :: "env \<Rightarrow> args \<Rightarrow> error + state" where
  "final_state e a =
     (case explicit_files_abs e a of
        Inl err \<Rightarrow> Inl err
      | Inr abs_set \<Rightarrow>
          (case walk_all e a abs_set initial_state of
             Inl err \<Rightarrow> Inl err
           | Inr st \<Rightarrow> explicit_loop e a st (files a)))"

definition collect_file_contents :: "env \<Rightarrow> args \<Rightarrow> error + str \<times> summary" where
  "collect_file_contents e a =
     (case final_state e a of
        Inl err \<Rightarrow> Inl err
      | Inr st \<Rightarrow> Inr (output_str st @ u ''</code-sample>'', summary_of st))"

text \<open>
  \<open>perform_copy\<close>: what the command does with the clipboard. \<open>encoding_for_model\<close> is
  \<open>tiktoken.encoding_for_model\<close>, which finds the encoding, raises the \<open>KeyError\<close> that
  the source catches, or fails otherwise; \<open>cl100k_base\<close> is the fallback
  \<open>tiktoken.get_encoding("cl100k_base")\<close>, \<open>None\<close> when it raises; \<open>clipboard_ok\<close> tells
  whether \<open>pyperclip.copy\<close> of a text returns. The limits and the model are the
  command line arguments.
\<close>

datatype encoding_lookup = Found "str \<Rightarrow> nat list option" | KeyError | LoadFailure

record copy_env =
  encoding_for_model :: "str \<Rightarrow> encoding_lookup"
  cl100k_base :: "(str \<Rightarrow> nat list option) option"
  clipboard_ok :: "str \<Rightarrow> bool"

record copy_args =
  arg_max_files :: "int option"
  arg_max_chars :: "int option"
  arg_max_tokens :: "int option"
  arg_model :: str

definition no_patterns_msg :: str where
  "no_patterns_msg =
     [NL] @ u ''Error: No include patterns or explicit files found. Please add patterns or files using the ''
     @ quoted (u ''add'') @ u '' command before copying.''"

definition model_warning_msg :: "str \<Rightarrow> str" where
  "model_warning_msg model =
     [NL] @ u ''Warning: Model '' @ quoted model
     @ u '' not found. Falling back to cl100k_base encoding.''"

definition no_files_msg :: str where
  "no_files_msg =
     [NL] @ u ''No files to copy after applying limits and .gitignore rules. Please adjust your patterns or limits.''"

datatype copy_outcome = NoPatternsError | NoFilesError | Copied str summary

text \<open>The encoding that \<open>perform_copy\<close> initialises (lines 341 to 349).\<close>

definition init_encoding :: "env \<Rightarrow> copy_env \<Rightarrow> str \<Rightarrow> error + (str \<Rightarrow> nat list option)" where
  "init_encoding e ce model =
     (case encoding_for_model ce model of
        Found enc \<Rightarrow> Inr enc
      | LoadFailure \<Rightarrow> Inl EncodingLoadError
      | KeyError \<Rightarrow>
          if \<not> stderr_ok e (model_warning_msg model) then Inl PrintError
          else (case cl100k_base ce of
                  None \<Rightarrow> Inl EncodingLoadError
                | Some enc \<Rightarrow> Inr enc))"

text \<open>
  \<open>collect_args\<close> is the call of \<open>collect_file_contents\<close> in \<open>perform_copy\<close>. The result
  \<open>Copied\<close> means that \<open>pyperclip.copy\<close> has returned; what \<open>perform_copy\<close> prints after
  it does not touch the clipboard.
\<close>

definition collect_args :: "config \<Rightarrow> copy_args \<Rightarrow> (str \<Rightarrow> nat list option) \<Rightarrow> args" where
  "collect_args c ca enc =
     \<lparr>patterns = include_patterns c, files = explicit_files c, max_files = arg_max_files ca,
      max_chars = arg_max_chars ca, max_tokens = arg_max_tokens ca, encoding = enc\<rparr>"

definition perform_copy :: "env \<Rightarrow> copy_env \<Rightarrow> config \<Rightarrow> copy_args \<Rightarrow> error + copy_outcome" where
  "perform_copy e ce c ca =
     (if include_patterns c = [] \<and> explicit_files c = []
      then (if stderr_ok e no_patterns_msg then Inr NoPatternsError else Inl PrintError)
      else (case init_encoding e ce (arg_model ca) of
              Inl err \<Rightarrow> Inl err
            | Inr enc \<Rightarrow>
                (case collect_file_contents e (collect_args c ca enc) of
                   Inl err \<Rightarrow> Inl err
                 | Inr (file_contents, summ) \<Rightarrow>
                     if files_added summ = 0
                     then (if stderr_ok e no_files_msg then Inr NoFilesError else Inl PrintError)
                     else if clipboard_ok ce file_contents then Inr (Copied file_contents summ)
                     else Inl ClipboardError)))"

text \<open>The text that \<open>pyperclip.copy\<close> has put on the clipboard, if any.\<close>

fun clipboard_write :: "error + copy_outcome \<Rightarrow> str option" where
  "clipboard_write (Inr (Copied file_contents summ)) = Some file_contents"
| "clipboard_write other = None"

text \<open>
  A matcher for the concrete runs below: \<open>*\<close> matches any run of characters (also
  \<open>/\<close>), \<open>?\<close> one character, any other character itself, as \<open>fnmatch\<close> does on
  patterns without brackets. The first argument is the pattern.
\<close>

fun wildcard :: "str \<Rightarrow> str \<Rightarrow> bool" where
  "wildcard [] s = (s = [])"
| "wildcard (p # ps) [] = (p = 42 \<and> wildcard ps [])"
| "wildcard (p # ps) (c # cs) =
     (if p = 42 then wildcard ps (c # cs) \<or> wildcard (p # ps) cs
      else (p = 63 \<or> p = c) \<and> wildcard ps cs)"


section \<open>Notions used to state the properties\<close>

text \<open>
  A file is matched when the loops let it reach the limit checks whatever the state:
  \<open>rel\<close> is its relative path and is not an excluded name, the file can be read and
  \<open>content\<close> is its text, its path resolves, it matches an include pattern or is an
  explicit file, and if the ignore rules match it then it is an explicit file. It is a
  candidate in a state when, in addition, its relative path is not collected yet.
\<close>

definition matched :: "env \<Rightarrow> args \<Rightarrow> str set \<Rightarrow> str \<Rightarrow> str \<Rightarrow> str \<Rightarrow> bool" where
  "matched e a abs_set file_path rel content \<longleftrightarrow>
     rel = relpath (cwd e) file_path (cwd e) \<and> \<not> excluded_name rel \<and>
     read_text (file_bytes e) file_path = Inr content \<and>
     (case resolve_path e file_path of
        None \<Rightarrow> False
      | Some file_abs_path \<Rightarrow>
          (matches_include_patterns (fnmatch e) rel (patterns a) \<or> file_abs_path \<in> abs_set) \<and>
          (ignore_spec e rel \<longrightarrow> file_abs_path \<in> abs_set))"

definition candidate :: "env \<Rightarrow> args \<Rightarrow> str set \<Rightarrow> state \<Rightarrow> str \<Rightarrow> str \<Rightarrow> str \<Rightarrow> bool" where
  "candidate e a abs_set st file_path rel content \<longleftrightarrow>
     matched e a abs_set file_path rel content \<and> rel \<notin> included_files st"

text \<open>The bundle made of a list of blocks, each a relative path with a content.\<close>

definition blocks_text :: "(str \<times> str) list \<Rightarrow> str" where
  "blocks_text blocks = concat (map (\<lambda>(rel, content). format_block rel content) blocks)"

definition bundle_of :: "(str \<times> str) list \<Rightarrow> str" where
  "bundle_of blocks = u ''<code-sample>'' @ [NL] @ blocks_text blocks @ u ''</code-sample>''"

text \<open>
  What holds of the state between two files: the output is the opening line followed
  by the blocks of the files collected so far, no relative path labels two blocks, the
  labels are the set \<open>included_files\<close>, the counters of files and characters account
  for the blocks, and every block is a matched file with the text read from it.
\<close>

definition collected :: "env \<Rightarrow> args \<Rightarrow> str set \<Rightarrow> state \<Rightarrow> (str \<times> str) list \<Rightarrow> bool" where
  "collected e a abs_set st blocks \<longleftrightarrow>
     output_str st = u ''<code-sample>'' @ [NL] @ blocks_text blocks \<and>
     distinct (map fst blocks) \<and>
     set (map fst blocks) = included_files st \<and>
     total_files_added st = int (length blocks) \<and>
     total_chars_copied st = int (length (blocks_text blocks)) \<and>
     list_all (\<lambda>(rel, content). \<exists>file_path. matched e a abs_set file_path rel content) blocks"


text \<open>
  A file is over the budget at running totals \<open>chars\<close> and \<open>tokens\<close> when its block
  would make the characters exceed \<open>max_chars\<close>, or its tokens are counted and would make
  the tokens exceed \<open>max_tokens\<close>.
\<close>

definition over_budget :: "args \<Rightarrow> str \<Rightarrow> str \<Rightarrow> int \<Rightarrow> int \<Rightarrow> bool" where
  "over_budget a rel content chars tokens \<longleftrightarrow>
     exceeds (max_chars a) (chars + int (length (format_block rel content))) \<or>
     (case get_token_count (format_block rel content) (encoding a) of
        Inl err \<Rightarrow> False
      | Inr n \<Rightarrow> exceeds (max_tokens a) (tokens + n))"

text \<open>
  A relative path is skipped for the budget when it is the path of a matched file that
  was over the budget at running totals that are at most \<open>chars_now\<close> and \<open>tokens_now\<close>.
\<close>

definition budget_skip :: "env \<Rightarrow> args \<Rightarrow> str set \<Rightarrow> int \<Rightarrow> int \<Rightarrow> str \<Rightarrow> bool" where
  "budget_skip e a abs_set chars_now tokens_now rel \<longleftrightarrow>
     (\<exists>file_path content chars tokens.
        matched e a abs_set file_path rel content \<and>
        0 \<le> chars \<and> chars \<le> chars_now \<and> 0 \<le> tokens \<and> tokens \<le> tokens_now \<and>
        over_budget a rel content chars tokens)"

definition skipped_ok :: "env \<Rightarrow> args \<Rightarrow> str set \<Rightarrow> state \<Rightarrow> bool" where
  "skipped_ok e a abs_set st \<longleftrightarrow>
     total_files_skipped st = int (length (skipped_files st)) \<and>
     0 \<le> total_chars_copied st \<and> 0 \<le> total_tokens_copied st \<and>
     list_all (budget_skip e a abs_set (total_chars_copied st) (total_tokens_copied st))
              (skipped_files st)"



text \<open>
  What the UTF-8 codec finds in a byte string, in order: a code point for every
  well-formed sequence and \<open>None\<close> for every malformed run. \<open>without_malformed\<close> leaves
  the malformed runs out and \<open>with_replacement\<close> puts U+FFFD for each.
\<close>

fun scan_all :: "nat list \<Rightarrow> nat option list" where
  "scan_all [] = []"
| "scan_all (b # bs) =
     (case utf8_scan (b # bs) of
        Char c n \<Rightarrow> Some c # scan_all (drop (n - 1) bs)
      | Malformed n \<Rightarrow> None # scan_all (drop (n - 1) bs))"

definition without_malformed :: "nat option list \<Rightarrow> str" where
  "without_malformed items = concat (map (\<lambda>item. case item of None \<Rightarrow> [] | Some c \<Rightarrow> [c]) items)"

definition with_replacement :: "nat option list \<Rightarrow> str" where
  "with_replacement items = map (\<lambda>item. case item of None \<Rightarrow> 0xFFFD | Some c \<Rightarrow> c) items"

section \<open>A project for the concrete runs\<close>

text \<open>
  The project \<open>/p\<close> holds \<open>.gitignore\<close>, \<open>a.txt\<close>, \<open>b.md\<close> and the directories \<open>.git\<close>
  (with \<open>config.txt\<close>), \<open>build\<close> (with \<open>out.txt\<close>) and \<open>sub\<close> (with \<open>c.txt\<close>). The ignore
  file holds the line \<open>build/\<close>. There is no symbolic link, every file holds the two
  bytes of \<open>hi\<close>, every message is printed, and a text has one token for each character.
\<close>

definition example_root :: dir where
  "example_root =
     Dir [u ''.gitignore'', u ''a.txt'', u ''b.md'']
         [(u ''.git'', Dir [u ''config.txt''] []),
          (u ''build'', Dir [u ''out.txt''] []),
          (u ''sub'', Dir [u ''c.txt''] [])]"

definition example_env :: env where
  "example_env =
     \<lparr>cwd = u ''/p'', root = example_root,
      ignore_spec = (\<lambda>p. startswith p (u ''build/'')),
      fnmatch = (\<lambda>name pattern. wildcard pattern name),
      resolve_path = (\<lambda>p. Some (lexical_resolve (u ''/p'') p)),
      is_file = (\<lambda>p. True),
      file_bytes = (\<lambda>p. Inr [0x68, 0x69]),
      stderr_ok = (\<lambda>message. True)\<rparr>"

text \<open>
  The arguments of the runs: the given include patterns, explicit files and limits on
  files and characters, and no token limit.
\<close>

definition example_args :: "str list \<Rightarrow> str list \<Rightarrow> int option \<Rightarrow> int option \<Rightarrow> args" where
  "example_args ps fs mf mc =
     \<lparr>patterns = ps, files = fs, max_files = mf, max_chars = mc,
      max_tokens = None, encoding = (\<lambda>text. Some text)\<rparr>"

text \<open>
  The surroundings and arguments of \<open>copy\<close> in the runs: the model is not known, the
  fallback encoding has one token for each character, and the clipboard takes every
  text. The configuration holds the pattern \<open>*.txt\<close>.
\<close>

definition example_copy_env :: copy_env where
  "example_copy_env =
     \<lparr>encoding_for_model = (\<lambda>model. KeyError), cl100k_base = Some (\<lambda>text. Some text),
      clipboard_ok = (\<lambda>text. True)\<rparr>"

definition example_copy_args :: "int option \<Rightarrow> copy_args" where
  "example_copy_args mc =
     \<lparr>arg_max_files = None, arg_max_chars = mc, arg_max_tokens = None, arg_model = u ''gpt-4o''\<rparr>"

definition example_config :: config where
  "example_config = \<lparr>include_patterns = [u ''*.txt''], explicit_files = []\<rparr>"

section \<open>Properties of the pattern store\<close>


lemma distinct_count_list_one: "distinct xs \<Longrightarrow> x \<in> set xs \<Longrightarrow> count_list xs x = 1"
  by (induction xs) (auto simp add: count_list_0_iff)

lemma add_pattern_distinct:
  assumes "add_pattern e s p = Some s'"
    and "distinct (include_patterns (cfg s))" and "distinct (explicit_files (cfg s))"
  shows "distinct (include_patterns (cfg s')) \<and> distinct (explicit_files (cfg s'))"
  using assms
  by (auto simp add: add_pattern_def Let_def split: if_splits option.splits)

lemma add_pattern_stores:
  assumes "add_pattern e s p = Some s'"
  shows "stored e (cfg s') p"
  using assms
  by (auto simp add: add_pattern_def stored_def Let_def split: if_splits option.splits)

lemma add_pattern_keeps:
  assumes "add_pattern e s p = Some s'" and "stored e (cfg s) q"
  shows "stored e (cfg s') q"
  using assms
  by (auto simp add: add_pattern_def stored_def Let_def split: if_splits option.splits)

lemma add_pattern_stored_cfg:
  assumes "add_pattern e s p = Some s'" and "stored e (cfg s) p"
  shows "cfg s' = cfg s"
  using assms
  by (auto simp add: add_pattern_def stored_def Let_def split: if_splits option.splits)

lemma add_loop_distinct:
  "add_loop e s ps = Some s' \<Longrightarrow> distinct (include_patterns (cfg s)) \<Longrightarrow>
   distinct (explicit_files (cfg s)) \<Longrightarrow>
   distinct (include_patterns (cfg s')) \<and> distinct (explicit_files (cfg s'))"
proof (induction ps arbitrary: s)
  case Nil
  then show ?case by simp
next
  case (Cons p ps)
  from Cons.prems(1) obtain s1 where s1: "add_pattern e s p = Some s1"
    and rest: "add_loop e s1 ps = Some s'"
    by (cases "add_pattern e s p") simp_all
  from add_pattern_distinct [OF s1 Cons.prems(2) Cons.prems(3)]
  show ?case using Cons.IH [OF rest] by blast
qed

lemma add_loop_keeps:
  "add_loop e s ps = Some s' \<Longrightarrow> stored e (cfg s) q \<Longrightarrow> stored e (cfg s') q"
proof (induction ps arbitrary: s)
  case Nil
  then show ?case by simp
next
  case (Cons p ps)
  from Cons.prems(1) obtain s1 where s1: "add_pattern e s p = Some s1"
    and rest: "add_loop e s1 ps = Some s'"
    by (cases "add_pattern e s p") simp_all
  from add_pattern_keeps [OF s1 Cons.prems(2)] show ?case by (rule Cons.IH [OF rest])
qed

lemma add_loop_stores:
  "add_loop e s ps = Some s' \<Longrightarrow> q \<in> set ps \<Longrightarrow> stored e (cfg s') q"
proof (induction ps arbitrary: s)
  case Nil
  then show ?case by simp
next
  case (Cons p ps)
  from Cons.prems(1) obtain s1 where s1: "add_pattern e s p = Some s1"
    and rest: "add_loop e s1 ps = Some s'"
    by (cases "add_pattern e s p") simp_all
  show ?case
  proof (cases "q = p")
    case True
    from add_pattern_stores [OF s1] have "stored e (cfg s1) q" unfolding True .
    then show ?thesis by (rule add_loop_keeps [OF rest])
  next
    case False
    with Cons.prems(2) have "q \<in> set ps" by simp
    then show ?thesis by (rule Cons.IH [OF rest])
  qed
qed

lemma add_loop_stored_cfg:
  "add_loop e s ps = Some s' \<Longrightarrow> \<forall>p \<in> set ps. stored e (cfg s) p \<Longrightarrow> cfg s' = cfg s"
proof (induction ps arbitrary: s)
  case Nil
  then show ?case by simp
next
  case (Cons p ps)
  from Cons.prems(1) obtain s1 where s1: "add_pattern e s p = Some s1"
    and rest: "add_loop e s1 ps = Some s'"
    by (cases "add_pattern e s p") simp_all
  from Cons.prems(2) have "stored e (cfg s) p" by simp
  then have eq: "cfg s1 = cfg s" by (rule add_pattern_stored_cfg [OF s1])
  from Cons.prems(2) have "\<forall>p \<in> set ps. stored e (cfg s1) p" unfolding eq by simp
  then have "cfg s' = cfg s1" by (rule Cons.IH [OF rest])
  then show ?case unfolding eq .
qed

lemma stored_resolve_cong:
  "resolve e2 (strip p) = resolve e (strip p) \<Longrightarrow> stored e2 c p = stored e c p"
  by (simp add: stored_def)

lemma stored_count_one:
  assumes "stored e c p" and "distinct (include_patterns c)" and "distinct (explicit_files c)"
  shows "if is_glob_pattern (strip p)
         then count_list (include_patterns c) (strip p) = 1
         else \<exists>absolute_path. resolve e (strip p) = Some absolute_path
                \<and> count_list (explicit_files c) absolute_path = 1"
  using assms
  by (auto simp add: stored_def distinct_count_list_one split: option.splits if_splits)

lemma add_patterns_again:
  assumes all: "\<forall>p \<in> set ps. stored e2 c p" and w: "write_outcome e2 c \<noteq> Truncated"
  shows "add_patterns e2 c ps = c"
proof (cases "add_loop e2 (initial_add_state c) ps")
  case None
  then show ?thesis by (simp add: add_patterns_def)
next
  case (Some s2)
  from all have "\<forall>p \<in> set ps. stored e2 (cfg (initial_add_state c)) p"
    by (simp add: initial_add_state_def)
  from add_loop_stored_cfg [OF Some this] have "cfg s2 = c"
    by (simp add: initial_add_state_def)
  with Some w show ?thesis
    by (cases "write_outcome e2 c") (simp_all add: add_patterns_def save_config_def)
qed

text \<open>
  Claim C6, as amended. Let the stored lists hold no entry twice and let an \<open>add\<close>
  of a batch complete: every path resolves, every message is printed and the file is
  written. Then the store is the configuration the loop built, its lists still hold no
  entry twice, and every entry the batch names (a glob compared verbatim after
  stripping, a path compared by its resolved form, whatever its spelling) occurs
  exactly once. Adding the same batch a second time, with the paths resolving as
  before and the file not damaged by a failed write, leaves the store as it is.
\<close>

theorem add_patterns_deduplicates:
  assumes "distinct (include_patterns c)" and "distinct (explicit_files c)"
    and "add_loop e (initial_add_state c) ps = Some s"
    and "write_outcome e (cfg s) = Written"
    and "\<forall>p \<in> set ps. resolve e2 (strip p) = resolve e (strip p)"
    and "write_outcome e2 (cfg s) \<noteq> Truncated"
  shows "add_patterns e c ps = cfg s \<and>
         distinct (include_patterns (add_patterns e c ps)) \<and>
         distinct (explicit_files (add_patterns e c ps)) \<and>
         (\<forall>p \<in> set ps.
            if is_glob_pattern (strip p)
            then count_list (include_patterns (add_patterns e c ps)) (strip p) = 1
            else \<exists>absolute_path. resolve e (strip p) = Some absolute_path
                   \<and> count_list (explicit_files (add_patterns e c ps)) absolute_path = 1) \<and>
         add_patterns e2 (add_patterns e c ps) ps = add_patterns e c ps"
proof -
  have run: "add_patterns e c ps = cfg s"
    using assms(3,4) by (simp add: add_patterns_def save_config_def)
  have d0: "distinct (include_patterns (cfg (initial_add_state c)))"
    "distinct (explicit_files (cfg (initial_add_state c)))"
    using assms(1,2) by (simp_all add: initial_add_state_def)
  from add_loop_distinct [OF assms(3) d0]
  have d: "distinct (include_patterns (cfg s))" "distinct (explicit_files (cfg s))"
    by simp_all
  have st: "stored e (cfg s) p" if "p \<in> set ps" for p
    using assms(3) that by (rule add_loop_stores)
  have cnt: "if is_glob_pattern (strip p)
            then count_list (include_patterns (cfg s)) (strip p) = 1
            else \<exists>absolute_path. resolve e (strip p) = Some absolute_path
                   \<and> count_list (explicit_files (cfg s)) absolute_path = 1"
    if "p \<in> set ps" for p
    using st [OF that] d by (rule stored_count_one)
  have "\<forall>p \<in> set ps. stored e2 (cfg s) p"
  proof
    fix p assume p: "p \<in> set ps"
    with assms(5) have "resolve e2 (strip p) = resolve e (strip p)" by simp
    then have "stored e2 (cfg s) p = stored e (cfg s) p" by (rule stored_resolve_cong)
    with st [OF p] show "stored e2 (cfg s) p" by simp
  qed
  then have again: "add_patterns e2 (cfg s) ps = cfg s"
    using assms(6) by (rule add_patterns_again)
  show ?thesis
    unfolding run
  proof (intro conjI ballI)
    show "cfg s = cfg s" by (rule refl)
    show "distinct (include_patterns (cfg s))" by (rule d(1))
    show "distinct (explicit_files (cfg s))" by (rule d(2))
    show "add_patterns e2 (cfg s) ps = cfg s" by (rule again)
  next
    fix p assume "p \<in> set ps"
    then show "if is_glob_pattern (strip p)
            then count_list (include_patterns (cfg s)) (strip p) = 1
            else \<exists>absolute_path. resolve e (strip p) = Some absolute_path
                   \<and> count_list (explicit_files (cfg s)) absolute_path = 1"
      by (rule cnt)
  qed
qed


text \<open>
  The claim as written fails on a store that holds an entry twice: \<open>add\<close> only
  tests membership, so the entry stays twice. It also fails when a path of the batch
  does not resolve: the exception leaves \<open>add_patterns\<close> before \<open>save_config\<close>, and
  a glob of the same batch is stored zero times, however often the batch is added.
\<close>

theorem add_patterns_keeps_duplicates:
  "count_list (include_patterns (add_patterns (plain_store (u ''/p''))
       \<lparr>include_patterns = [u ''*.py'', u ''*.py''], explicit_files = []\<rparr> [u ''*.py'']))
     (u ''*.py'') = 2 \<and>
   count_list (include_patterns (add_patterns (loop_store (u ''/p''))
       (add_patterns (loop_store (u ''/p'')) \<lparr>include_patterns = [], explicit_files = []\<rparr>
          [u ''*.py'', u ''loop''])
       [u ''*.py'', u ''loop''])) (u ''*.py'') = 0"
  by (simp add: add_patterns_def initial_add_state_def add_pattern_def save_config_def Let_def
        is_glob_pattern_def strip_def u_def isspace_def plain_store_def loop_store_def)

text \<open>
  A run of the amended claim from the empty store: a glob given with and without
  surrounding blanks, and a file given by two spellings. The second \<open>add\<close> runs where
  no message can be printed.
\<close>

theorem add_patterns_deduplicates_witness:
  "distinct (include_patterns \<lparr>include_patterns = [], explicit_files = []\<rparr>) \<and>
   distinct (explicit_files \<lparr>include_patterns = [], explicit_files = []\<rparr>) \<and>
   add_loop (plain_store (u ''/p''))
       (initial_add_state \<lparr>include_patterns = [], explicit_files = []\<rparr>)
       [u ''*.py'', u '' *.py'', u ''a.txt'', u ''./a.txt'']
     = Some \<lparr>cfg = \<lparr>include_patterns = [u ''*.py''], explicit_files = [u ''/p/a.txt'']\<rparr>,
              added_globs = [u ''*.py''], added_files = [u ''/p/a.txt'']\<rparr> \<and>
   write_outcome (plain_store (u ''/p''))
       \<lparr>include_patterns = [u ''*.py''], explicit_files = [u ''/p/a.txt'']\<rparr> = Written \<and>
   add_patterns (plain_store (u ''/p'')) \<lparr>include_patterns = [], explicit_files = []\<rparr>
       [u ''*.py'', u '' *.py'', u ''a.txt'', u ''./a.txt'']
     = \<lparr>include_patterns = [u ''*.py''], explicit_files = [u ''/p/a.txt'']\<rparr> \<and>
   count_list [u ''*.py''] (strip (u '' *.py'')) = 1 \<and>
   resolve (plain_store (u ''/p'')) (strip (u ''./a.txt'')) = Some (u ''/p/a.txt'') \<and>
   count_list [u ''/p/a.txt''] (u ''/p/a.txt'') = 1 \<and>
   add_patterns ((plain_store (u ''/p''))\<lparr>print_ok := (\<lambda>message. False)\<rparr>)
       \<lparr>include_patterns = [u ''*.py''], explicit_files = [u ''/p/a.txt'']\<rparr>
       [u ''*.py'', u '' *.py'', u ''a.txt'', u ''./a.txt'']
     = \<lparr>include_patterns = [u ''*.py''], explicit_files = [u ''/p/a.txt'']\<rparr>"
proof -
  let ?e = "plain_store (u ''/p'')"
  let ?e2 = "(plain_store (u ''/p''))\<lparr>print_ok := (\<lambda>message. False)\<rparr>"
  let ?c = "\<lparr>include_patterns = [], explicit_files = []\<rparr>"
  let ?ps = "[u ''*.py'', u '' *.py'', u ''a.txt'', u ''./a.txt'']"
  let ?c' = "\<lparr>include_patterns = [u ''*.py''], explicit_files = [u ''/p/a.txt'']\<rparr>"
  let ?s = "\<lparr>cfg = ?c', added_globs = [u ''*.py''], added_files = [u ''/p/a.txt'']\<rparr>"
  have h1: "distinct (include_patterns ?c)" and h2: "distinct (explicit_files ?c)"
    by simp_all
  have h3: "add_loop ?e (initial_add_state ?c) ?ps = Some ?s"
    by (simp add: initial_add_state_def add_pattern_def Let_def is_glob_pattern_def
          strip_def u_def isspace_def plain_store_def glob_info_def file_info_def
          lexical_resolve_def abs_comps_def path_join_def startswith_def endswith_def SLASH_def)
  have h4: "write_outcome ?e (cfg ?s) = Written"
    by (simp add: plain_store_def)
  have h5: "\<forall>p \<in> set ?ps. resolve ?e2 (strip p) = resolve ?e (strip p)"
    by simp
  have h6: "write_outcome ?e2 (cfg ?s) \<noteq> Truncated"
    by (simp add: plain_store_def)
  have cs: "cfg ?s = ?c'" by simp
  note r = add_patterns_deduplicates [OF h1 h2 h3 h4 h5 h6]
  from r have run: "add_patterns ?e ?c ?ps = ?c'"
    unfolding cs by (rule conjunct1)
  note r' = r [unfolded run]
  have m1: "u '' *.py'' \<in> set ?ps" and m2: "u ''./a.txt'' \<in> set ?ps"
    by simp_all
  have g: "is_glob_pattern (strip (u '' *.py''))"
    by (simp add: is_glob_pattern_def strip_def u_def isspace_def)
  have ng: "\<not> is_glob_pattern (strip (u ''./a.txt''))"
    by (simp add: is_glob_pattern_def strip_def u_def isspace_def)
  have res: "resolve ?e (strip (u ''./a.txt'')) = Some (u ''/p/a.txt'')"
    by (simp add: strip_def u_def isspace_def plain_store_def
          lexical_resolve_def abs_comps_def path_join_def startswith_def endswith_def SLASH_def)
  note all = r' [THEN conjunct2, THEN conjunct2, THEN conjunct2, THEN conjunct1]
  have c1: "count_list [u ''*.py''] (strip (u '' *.py'')) = 1"
    using all [THEN bspec, OF m1] g by (simp only: if_True config.select_convs)
  have "\<exists>absolute_path. resolve ?e (strip (u ''./a.txt'')) = Some absolute_path
           \<and> count_list [u ''/p/a.txt''] absolute_path = 1"
    using all [THEN bspec, OF m2] ng by (simp only: if_False config.select_convs)
  then have c2: "count_list [u ''/p/a.txt''] (u ''/p/a.txt'') = 1"
    unfolding res by (elim exE conjE) (simp only: option.inject)
  note again = r' [THEN conjunct2, THEN conjunct2, THEN conjunct2, THEN conjunct2]
  show ?thesis
    using h1 h2 h3 h4 [unfolded cs] run c1 res c2 again by (intro conjI)
qed

section \<open>Properties of the collection engine\<close>

lemma walk_file_cases:
  assumes "walk_file e a abs_set dirpath st filename = Inr (st', fl)"
  shows "(st' = st \<and> fl = Continue) \<or>
         (\<exists>file_path rel content. candidate e a abs_set st file_path rel content
            \<and> add_content e a st rel content = Inr (st', fl))"
  using assms
  by (auto simp add: walk_file_def read_and_add_def candidate_def matched_def should_ignore_def
        Let_def split: if_splits option.splits sum.splits)

lemma resolve_all_mem:
  "resolve_all r fs = Inr ps \<Longrightarrow> f \<in> set fs \<Longrightarrow> r f = Some p \<Longrightarrow> p \<in> set ps"
  by (induction fs arbitrary: ps) (auto split: option.splits sum.splits)

lemma explicit_file_cases:
  assumes "explicit_file e a st file_path = Inr (st', fl)"
    and "explicit_files_abs e a = Inr abs_set" and "file_path \<in> set (files a)"
  shows "(st' = st \<and> fl = Continue) \<or>
         (\<exists>rel content. candidate e a abs_set st file_path rel content
            \<and> add_content e a st rel content = Inr (st', fl))"
proof -
  from assms(2) obtain ps where ps: "resolve_all (resolve_path e) (files a) = Inr ps"
    and abs_set: "abs_set = set ps"
    by (auto simp add: explicit_files_abs_def split: sum.splits)
  have mem: "p \<in> abs_set" if "resolve_path e file_path = Some p" for p
    unfolding abs_set using ps assms(3) that by (rule resolve_all_mem)
  show ?thesis
    using assms(1) mem
    by (auto simp add: explicit_file_def read_and_add_def candidate_def matched_def Let_def
          split: if_splits option.splits sum.splits)
qed

text \<open>An invariant of the state that every handled candidate keeps holds at the end.\<close>

lemma walk_files_pres:
  assumes step: "\<forall>st file_path rel content st' fl. P st \<longrightarrow>
      candidate e a abs_set st file_path rel content \<longrightarrow>
      add_content e a st rel content = Inr (st', fl) \<longrightarrow> P st'"
  shows "P st \<Longrightarrow> walk_files e a abs_set dirpath st fs = Inr st2 \<Longrightarrow> P st2"
proof (induction fs arbitrary: st)
  case Nil
  then show ?case by simp
next
  case (Cons f fs)
  from Cons.prems(2) obtain st' fl where w: "walk_file e a abs_set dirpath st f = Inr (st', fl)"
    by (cases "walk_file e a abs_set dirpath st f") auto
  from walk_file_cases [OF w] Cons.prems(1) step have P': "P st'" by blast
  show ?case
  proof (cases fl)
    case Continue
    with Cons.prems(2) w have "walk_files e a abs_set dirpath st' fs = Inr st2" by simp
    with P' show ?thesis by (rule Cons.IH)
  next
    case Break
    with Cons.prems(2) w have "st2 = st'" by simp
    with P' show ?thesis by simp
  qed
qed

lemma walk_dirs_pres:
  assumes step: "\<forall>st file_path rel content st' fl. P st \<longrightarrow>
      candidate e a abs_set st file_path rel content \<longrightarrow>
      add_content e a st rel content = Inr (st', fl) \<longrightarrow> P st'"
  shows "P st \<Longrightarrow> walk_dirs e a abs_set st ts = Inr st2 \<Longrightarrow> P st2"
proof (induction ts arbitrary: st)
  case Nil
  then show ?case by simp
next
  case (Cons t ts)
  obtain dirpath dirnames filenames where t: "t = (dirpath, dirnames, filenames)"
    by (cases t) auto
  from Cons.prems(2) obtain st' where w: "walk_dir e a abs_set st t = Inr st'"
    and rest: "walk_dirs e a abs_set st' ts = Inr st2"
    by (cases "walk_dir e a abs_set st t") auto
  from w have "walk_files e a abs_set dirpath st filenames = Inr st'"
    by (simp add: walk_dir_def t split: if_splits)
  with Cons.prems(1) have "P st'" by (rule walk_files_pres [where P = P, OF step])
  then show ?case using rest by (rule Cons.IH)
qed

lemma explicit_loop_pres:
  assumes step: "\<forall>st file_path rel content st' fl. P st \<longrightarrow>
      candidate e a abs_set st file_path rel content \<longrightarrow>
      add_content e a st rel content = Inr (st', fl) \<longrightarrow> P st'"
    and abs: "explicit_files_abs e a = Inr abs_set"
  shows "P st \<Longrightarrow> set fs \<subseteq> set (files a) \<Longrightarrow> explicit_loop e a st fs = Inr st2 \<Longrightarrow> P st2"
proof (induction fs arbitrary: st)
  case Nil
  then show ?case by simp
next
  case (Cons f fs)
  from Cons.prems(3) obtain st' fl where w: "explicit_file e a st f = Inr (st', fl)"
    by (cases "explicit_file e a st f") auto
  from Cons.prems(2) have f: "f \<in> set (files a)" and fs: "set fs \<subseteq> set (files a)" by simp_all
  from explicit_file_cases [OF w abs f] Cons.prems(1) step have P': "P st'" by blast
  show ?case
  proof (cases fl)
    case Continue
    with Cons.prems(3) w have "explicit_loop e a st' fs = Inr st2" by simp
    with P' fs show ?thesis by (rule Cons.IH)
  next
    case Break
    with Cons.prems(3) w have "st2 = st'" by simp
    with P' show ?thesis by simp
  qed
qed

lemma final_state_pres:
  assumes init: "P initial_state"
    and step: "\<forall>st file_path rel content st' fl. P st \<longrightarrow>
      candidate e a abs_set st file_path rel content \<longrightarrow>
      add_content e a st rel content = Inr (st', fl) \<longrightarrow> P st'"
    and abs: "explicit_files_abs e a = Inr abs_set"
    and fin: "final_state e a = Inr st"
  shows "P st"
proof -
  from fin abs obtain st1 where w: "walk_all e a abs_set initial_state = Inr st1"
    and x: "explicit_loop e a st1 (files a) = Inr st"
    by (auto simp add: final_state_def split: sum.splits)
  from init w [unfolded walk_all_def] have "P st1" by (rule walk_dirs_pres [where P = P, OF step])
  then show ?thesis using subset_refl x by (rule explicit_loop_pres [where P = P, OF step abs])
qed

lemma final_state_abs:
  "final_state e a = Inr st \<Longrightarrow> \<exists>abs_set. explicit_files_abs e a = Inr abs_set"
  by (auto simp add: final_state_def split: sum.splits)


lemma add_content_cases:
  assumes "add_content e a st rel content = Inr (st', fl)"
  shows "\<exists>n. get_token_count (format_block rel content) (encoding a) = Inr n \<and> 0 \<le> n \<and>
           ((exceeds (max_chars a) (total_chars_copied st + int (length (format_block rel content)))
               \<or> exceeds (max_tokens a) (total_tokens_copied st + n))
              \<and> st' = record_skip st rel content \<and> fl = Continue
            \<or> \<not> exceeds (max_chars a) (total_chars_copied st + int (length (format_block rel content)))
              \<and> \<not> exceeds (max_tokens a) (total_tokens_copied st + n)
              \<and> st' = append_file st rel content (format_block rel content) n)"
proof (cases "encoding a (format_block rel content)")
  case None
  with assms show ?thesis by (simp add: add_content_def get_token_count_def Let_def)
next
  case (Some tokens)
  then have g: "get_token_count (format_block rel content) (encoding a) = Inr (int (length tokens))"
    by (simp add: get_token_count_def)
  from assms show ?thesis
    unfolding add_content_def Let_def g
    by (auto split: if_splits)
qed

lemma blocks_text_snoc:
  "blocks_text (blocks @ [(rel, content)]) = blocks_text blocks @ format_block rel content"
  by (simp add: blocks_text_def)

lemma collected_skip:
  "collected e a abs_set st blocks \<Longrightarrow> collected e a abs_set (record_skip st rel content) blocks"
  by (simp add: collected_def record_skip_def)

lemma collected_append:
  assumes "collected e a abs_set st blocks" and "candidate e a abs_set st file_path rel content"
  shows "collected e a abs_set (append_file st rel content (format_block rel content) n)
           (blocks @ [(rel, content)])"
proof -
  from assms(2) have m: "matched e a abs_set file_path rel content"
    and new: "rel \<notin> included_files st"
    by (simp_all add: candidate_def)
  from assms(1) have labels: "set (map fst blocks) = included_files st"
    by (simp add: collected_def)
  from m have "\<exists>file_path. matched e a abs_set file_path rel content" by blast
  with assms(1) new labels show ?thesis
    by (simp add: collected_def append_file_def blocks_text_snoc)
qed

lemma add_content_collected:
  assumes "collected e a abs_set st blocks" and "candidate e a abs_set st file_path rel content"
    and "add_content e a st rel content = Inr (st', fl)"
  shows "\<exists>blocks'. collected e a abs_set st' blocks'"
proof -
  from add_content_cases [OF assms(3)]
  have "st' = record_skip st rel content
        \<or> (\<exists>n. st' = append_file st rel content (format_block rel content) n)"
    by blast
  then show ?thesis
  proof
    assume "st' = record_skip st rel content"
    with collected_skip [OF assms(1)] show ?thesis by blast
  next
    assume "\<exists>n. st' = append_file st rel content (format_block rel content) n"
    with collected_append [OF assms(1,2)] show ?thesis by blast
  qed
qed

lemma collected_initial: "collected e a abs_set initial_state []"
  by (simp add: collected_def initial_state_def blocks_text_def)

lemma final_state_collected:
  assumes "final_state e a = Inr st" and "explicit_files_abs e a = Inr abs_set"
  shows "\<exists>blocks. collected e a abs_set st blocks"
proof (rule final_state_pres [where P = "\<lambda>st. \<exists>blocks. collected e a abs_set st blocks",
      OF _ _ assms(2) assms(1)])
  show "\<exists>blocks. collected e a abs_set initial_state blocks"
    using collected_initial by blast
  show "\<forall>st file_path rel content st' fl.
      (\<exists>blocks. collected e a abs_set st blocks) \<longrightarrow>
      candidate e a abs_set st file_path rel content \<longrightarrow>
      add_content e a st rel content = Inr (st', fl) \<longrightarrow>
      (\<exists>blocks. collected e a abs_set st' blocks)"
    using add_content_collected by blast
qed

lemma collect_file_contents_final:
  assumes "collect_file_contents e a = Inr (out, s)"
  shows "\<exists>st abs_set. final_state e a = Inr st \<and> explicit_files_abs e a = Inr abs_set
           \<and> out = output_str st @ u ''</code-sample>'' \<and> s = summary_of st"
proof -
  from assms obtain st where st: "final_state e a = Inr st"
    and o: "out = output_str st @ u ''</code-sample>''" and s: "s = summary_of st"
    by (auto simp add: collect_file_contents_def split: sum.splits)
  from final_state_abs [OF st] st o s show ?thesis by blast
qed

section \<open>Concrete runs\<close>

lemma example_run_all:
  "collect_file_contents example_env
     (example_args [u ''*.txt''] [u ''/p/build/out.txt''] None None)
   = Inr (bundle_of [(u ''a.txt'', u ''hi''), (u ''sub/c.txt'', u ''hi''),
                     (u ''build/out.txt'', u ''hi'')],
          \<lparr>files_added = 3, chars_copied = 63, tokens_copied = 63, lines_added = 3,
           files_skipped = 0, lines_skipped = 0, summary_skipped_files = []\<rparr>)"
  by code_simp

lemma example_run_twice:
  "collect_file_contents example_env
     (example_args [u ''*.txt'', u ''a*''] [u ''/p/a.txt'', u ''a.txt''] None None)
   = Inr (bundle_of [(u ''a.txt'', u ''hi''), (u ''sub/c.txt'', u ''hi'')],
          \<lparr>files_added = 2, chars_copied = 38, tokens_copied = 38, lines_added = 2,
           files_skipped = 0, lines_skipped = 0, summary_skipped_files = []\<rparr>)"
  by code_simp


lemma example_run_small:
  "collect_file_contents example_env
     (example_args [u ''*.txt''] [u ''/p/build/out.txt''] None (Some 20))
   = Inr (bundle_of [(u ''a.txt'', u ''hi'')],
          \<lparr>files_added = 1, chars_copied = 17, tokens_copied = 17, lines_added = 1,
           files_skipped = 2, lines_skipped = 2,
           summary_skipped_files = [u ''sub/c.txt'', u ''build/out.txt'']\<rparr>)"
  by code_simp

lemma example_run_globs:
  "collect_file_contents example_env (example_args [u ''*.txt''] [] None None)
   = Inr (bundle_of [(u ''a.txt'', u ''hi''), (u ''sub/c.txt'', u ''hi'')],
          \<lparr>files_added = 2, chars_copied = 38, tokens_copied = 38, lines_added = 2,
           files_skipped = 0, lines_skipped = 0, summary_skipped_files = []\<rparr>)"
  by code_simp

lemma example_run_none:
  "collect_file_contents example_env (example_args [u ''*.txt''] [] None (Some 5))
   = Inr (bundle_of [],
          \<lparr>files_added = 0, chars_copied = 0, tokens_copied = 0, lines_added = 0,
           files_skipped = 2, lines_skipped = 2,
           summary_skipped_files = [u ''a.txt'', u ''sub/c.txt'']\<rparr>)"
  by code_simp

lemma final_blocks:
  assumes "collect_file_contents e a = Inr (out, s)"
  shows "\<exists>st abs_set blocks. final_state e a = Inr st \<and> s = summary_of st
           \<and> collected e a abs_set st blocks \<and> out = bundle_of blocks"
proof -
  from collect_file_contents_final [OF assms] obtain st abs_set
    where st: "final_state e a = Inr st" and abs: "explicit_files_abs e a = Inr abs_set"
      and o: "out = output_str st @ u ''</code-sample>''" and s: "s = summary_of st"
    by blast
  from final_state_collected [OF st abs] obtain blocks where c: "collected e a abs_set st blocks"
    by blast
  then have "output_str st = u ''<code-sample>'' @ [NL] @ blocks_text blocks"
    by (simp add: collected_def)
  with o have "out = bundle_of blocks" by (simp add: bundle_of_def)
  with st s c show ?thesis by blast
qed

lemma length_delimiters:
  "length (u ''<code-sample>'' @ [NL]) = 14" "length (u ''</code-sample>'') = 14"
  by (simp_all add: u_def)

lemma length_bundle_of: "int (length (bundle_of blocks)) = int (length (blocks_text blocks)) + 14 + 14"
  using length_delimiters by (simp add: bundle_of_def)

lemma length_blocks_text:
  "int (length (blocks_text blocks))
     = (\<Sum>(rel, content)\<leftarrow>blocks. int (length (format_block rel content)))"
  by (induction blocks) (auto simp add: blocks_text_def)

text \<open>
  Claim C10. When a collection run returns, the length of the bundle in characters is
  \<open>chars_copied\<close> plus 14 for the opening line and 14 for the closing tag: the bundle is
  the two delimiters around the blocks of the collected files, and \<open>chars_copied\<close> is
  the sum of the lengths of these blocks.
\<close>

theorem bundle_length:
  assumes "collect_file_contents e a = Inr (out, s)"
  shows "int (length out) = chars_copied s + 14 + 14 \<and>
         length (u ''<code-sample>'' @ [NL]) = 14 \<and> length (u ''</code-sample>'') = 14 \<and>
         (\<exists>blocks. out = u ''<code-sample>'' @ [NL] @ blocks_text blocks @ u ''</code-sample>'' \<and>
            chars_copied s = (\<Sum>(rel, content)\<leftarrow>blocks. int (length (format_block rel content))))"
proof -
  from final_blocks [OF assms] obtain st abs_set blocks
    where s: "s = summary_of st" and c: "collected e a abs_set st blocks"
      and o: "out = bundle_of blocks"
    by blast
  from c s have ch: "chars_copied s = int (length (blocks_text blocks))"
    by (simp add: collected_def summary_of_def)
  have "int (length out) = chars_copied s + 14 + 14"
    unfolding o ch by (rule length_bundle_of)
  moreover have "out = u ''<code-sample>'' @ [NL] @ blocks_text blocks @ u ''</code-sample>''"
    unfolding o by (simp add: bundle_of_def)
  moreover have "chars_copied s = (\<Sum>(rel, content)\<leftarrow>blocks. int (length (format_block rel content)))"
    unfolding ch by (rule length_blocks_text)
  ultimately show ?thesis using length_delimiters by blast
qed

theorem bundle_length_witness:
  "collect_file_contents example_env
     (example_args [u ''*.txt''] [u ''/p/build/out.txt''] None None)
   = Inr (bundle_of [(u ''a.txt'', u ''hi''), (u ''sub/c.txt'', u ''hi''),
                     (u ''build/out.txt'', u ''hi'')],
          \<lparr>files_added = 3, chars_copied = 63, tokens_copied = 63, lines_added = 3,
           files_skipped = 0, lines_skipped = 0, summary_skipped_files = []\<rparr>) \<and>
   int (length (bundle_of [(u ''a.txt'', u ''hi''), (u ''sub/c.txt'', u ''hi''),
                           (u ''build/out.txt'', u ''hi'')])) = 63 + 14 + 14"
proof -
  note r = bundle_length [OF example_run_all]
  from r have "int (length (bundle_of [(u ''a.txt'', u ''hi''), (u ''sub/c.txt'', u ''hi''),
                           (u ''build/out.txt'', u ''hi'')])) = 63 + 14 + 14"
    by (simp only: summary.select_convs)
  with example_run_all show ?thesis by (rule conjI)
qed

text \<open>
  Claim C2. When a collection run returns, the bundle is made of one block for each
  collected file, each block holds the text read from a file under its relative path,
  and no two blocks carry the same relative path, whatever the include patterns and the
  explicit files are.
\<close>

theorem one_block_per_path:
  assumes "collect_file_contents e a = Inr (out, s)"
  shows "\<exists>blocks. out = bundle_of blocks \<and> distinct (map fst blocks) \<and>
           files_added s = int (length blocks) \<and>
           (\<forall>(rel, content) \<in> set blocks.
              \<exists>file_path. rel = relpath (cwd e) file_path (cwd e)
                 \<and> read_text (file_bytes e) file_path = Inr content)"
proof -
  from final_blocks [OF assms] obtain st abs_set blocks
    where s: "s = summary_of st" and c: "collected e a abs_set st blocks"
      and o: "out = bundle_of blocks"
    by blast
  from c s have d: "distinct (map fst blocks)" and n: "files_added s = int (length blocks)"
    by (simp_all add: collected_def summary_of_def)
  from c have "list_all (\<lambda>(rel, content). \<exists>file_path. matched e a abs_set file_path rel content) blocks"
    by (simp add: collected_def)
  then have "\<forall>(rel, content) \<in> set blocks.
              \<exists>file_path. rel = relpath (cwd e) file_path (cwd e)
                 \<and> read_text (file_bytes e) file_path = Inr content"
    unfolding list_all_iff matched_def by fast
  with o d n show ?thesis by blast
qed

theorem one_block_per_path_witness:
  "collect_file_contents example_env
     (example_args [u ''*.txt'', u ''a*''] [u ''/p/a.txt'', u ''a.txt''] None None)
   = Inr (bundle_of [(u ''a.txt'', u ''hi''), (u ''sub/c.txt'', u ''hi'')],
          \<lparr>files_added = 2, chars_copied = 38, tokens_copied = 38, lines_added = 2,
           files_skipped = 0, lines_skipped = 0, summary_skipped_files = []\<rparr>) \<and>
   (\<exists>blocks. bundle_of [(u ''a.txt'', u ''hi''), (u ''sub/c.txt'', u ''hi'')] = bundle_of blocks \<and>
      distinct (map fst blocks) \<and> 2 = int (length blocks) \<and>
      (\<forall>(rel, content) \<in> set blocks.
         \<exists>file_path. rel = relpath (cwd example_env) file_path (cwd example_env)
            \<and> read_text (file_bytes example_env) file_path = Inr content))"
proof -
  note r = one_block_per_path [OF example_run_twice]
  from r have "\<exists>blocks. bundle_of [(u ''a.txt'', u ''hi''), (u ''sub/c.txt'', u ''hi'')] = bundle_of blocks \<and>
      distinct (map fst blocks) \<and> 2 = int (length blocks) \<and>
      (\<forall>(rel, content) \<in> set blocks.
         \<exists>file_path. rel = relpath (cwd example_env) file_path (cwd example_env)
            \<and> read_text (file_bytes example_env) file_path = Inr content)"
    by (simp only: summary.select_convs)
  with example_run_twice show ?thesis by (rule conjI)
qed





text \<open>
  Claim C1 fails on the code. With the limit of one file and the pattern \<open>*.txt\<close>, the
  run on the project collects \<open>a.txt\<close>, which reaches the limit, and then goes on to the
  directory \<open>sub\<close> and collects \<open>sub/c.txt\<close> too: the \<open>break\<close> leaves the loop over the
  files of one directory only, and the walk continues with the next directory. The
  summary reports two files under a limit of one.
\<close>

theorem walk_goes_on_after_limit:
  "collect_file_contents example_env (example_args [u ''*.txt''] [] (Some 1) None)
   = Inr (bundle_of [(u ''a.txt'', u ''hi''), (u ''sub/c.txt'', u ''hi'')],
          \<lparr>files_added = 2, chars_copied = 38, tokens_copied = 38, lines_added = 2,
           files_skipped = 0, lines_skipped = 0, summary_skipped_files = []\<rparr>)"
  by code_simp

lemma budget_skip_mono:
  assumes "budget_skip e a abs_set c t rel" and "c \<le> c'" and "t \<le> t'"
  shows "budget_skip e a abs_set c' t' rel"
proof -
  from assms(1) obtain file_path content chars tokens
    where m: "matched e a abs_set file_path rel content"
      and b: "0 \<le> chars" "chars \<le> c" "0 \<le> tokens" "tokens \<le> t"
      and o: "over_budget a rel content chars tokens"
    unfolding budget_skip_def by blast
  from b assms(2,3) have "chars \<le> c'" and "tokens \<le> t'" by simp_all
  with m b(1,3) o show ?thesis unfolding budget_skip_def by blast
qed

lemma skipped_ok_skip:
  assumes ok: "skipped_ok e a abs_set st" and c: "candidate e a abs_set st file_path rel content"
    and g: "get_token_count (format_block rel content) (encoding a) = Inr n"
    and x: "exceeds (max_chars a) (total_chars_copied st + int (length (format_block rel content)))
            \<or> exceeds (max_tokens a) (total_tokens_copied st + n)"
  shows "skipped_ok e a abs_set (record_skip st rel content)"
proof -
  from c have m: "matched e a abs_set file_path rel content" by (simp add: candidate_def)
  from x g have o: "over_budget a rel content (total_chars_copied st) (total_tokens_copied st)"
    by (auto simp add: over_budget_def)
  from ok have nn: "0 \<le> total_chars_copied st" "0 \<le> total_tokens_copied st"
    by (simp_all add: skipped_ok_def)
  from m o nn have "budget_skip e a abs_set (total_chars_copied st) (total_tokens_copied st) rel"
    unfolding budget_skip_def by blast
  with ok show ?thesis by (simp add: skipped_ok_def record_skip_def)
qed

lemma skipped_ok_append:
  assumes ok: "skipped_ok e a abs_set st" and n: "0 \<le> n"
  shows "skipped_ok e a abs_set (append_file st rel content block n)"
proof -
  let ?c = "total_chars_copied st + int (length block)"
  let ?t = "total_tokens_copied st + n"
  from ok have all: "list_all (budget_skip e a abs_set (total_chars_copied st) (total_tokens_copied st))
      (skipped_files st)"
    by (simp add: skipped_ok_def)
  have "list_all (budget_skip e a abs_set ?c ?t) (skipped_files st)"
    unfolding list_all_iff
  proof
    fix r assume "r \<in> set (skipped_files st)"
    with all have "budget_skip e a abs_set (total_chars_copied st) (total_tokens_copied st) r"
      by (simp add: list_all_iff)
    then show "budget_skip e a abs_set ?c ?t r"
    proof (rule budget_skip_mono)
      show "total_chars_copied st \<le> ?c" by simp
      show "total_tokens_copied st \<le> ?t" using n by simp
    qed
  qed
  with ok n show ?thesis by (simp add: skipped_ok_def append_file_def)
qed

lemma add_content_skipped_ok:
  assumes "skipped_ok e a abs_set st" and "candidate e a abs_set st file_path rel content"
    and "add_content e a st rel content = Inr (st', fl)"
  shows "skipped_ok e a abs_set st'"
proof -
  from add_content_cases [OF assms(3)] obtain n
    where g: "get_token_count (format_block rel content) (encoding a) = Inr n" and n: "0 \<le> n"
      and d: "(exceeds (max_chars a) (total_chars_copied st + int (length (format_block rel content)))
               \<or> exceeds (max_tokens a) (total_tokens_copied st + n))
              \<and> st' = record_skip st rel content
            \<or> st' = append_file st rel content (format_block rel content) n"
    by blast
  from d show ?thesis
  proof
    assume "(exceeds (max_chars a) (total_chars_copied st + int (length (format_block rel content)))
               \<or> exceeds (max_tokens a) (total_tokens_copied st + n))
              \<and> st' = record_skip st rel content"
    with skipped_ok_skip [OF assms(1,2) g] show ?thesis by simp
  next
    assume "st' = append_file st rel content (format_block rel content) n"
    with skipped_ok_append [OF assms(1) n] show ?thesis by simp
  qed
qed

lemma final_state_skipped_ok:
  assumes "final_state e a = Inr st" and "explicit_files_abs e a = Inr abs_set"
  shows "skipped_ok e a abs_set st"
proof (rule final_state_pres [where P = "skipped_ok e a abs_set", OF _ _ assms(2) assms(1)])
  show "skipped_ok e a abs_set initial_state"
    by (simp add: skipped_ok_def initial_state_def)
  show "\<forall>st file_path rel content st' fl.
      skipped_ok e a abs_set st \<longrightarrow>
      candidate e a abs_set st file_path rel content \<longrightarrow>
      add_content e a st rel content = Inr (st', fl) \<longrightarrow>
      skipped_ok e a abs_set st'"
    using add_content_skipped_ok by blast
qed

text \<open>
  Claim C9. When a collection run returns, \<open>files_skipped\<close> is the length of
  \<open>skipped_files\<close>, and every entry of \<open>skipped_files\<close> is the relative path of a
  matched file, which was read and matched an include pattern or was an explicit file,
  whose block was over the character or the token budget at totals that the run had
  reached.
\<close>

theorem skipped_for_budget:
  assumes "collect_file_contents e a = Inr (out, s)"
  shows "files_skipped s = int (length (summary_skipped_files s)) \<and>
         (\<exists>abs_set. explicit_files_abs e a = Inr abs_set \<and>
            (\<forall>rel \<in> set (summary_skipped_files s).
               \<exists>file_path content chars tokens.
                 matched e a abs_set file_path rel content \<and>
                 0 \<le> chars \<and> chars \<le> chars_copied s \<and>
                 0 \<le> tokens \<and> tokens \<le> tokens_copied s \<and>
                 over_budget a rel content chars tokens))"
proof -
  from collect_file_contents_final [OF assms] obtain st abs_set
    where st: "final_state e a = Inr st" and abs: "explicit_files_abs e a = Inr abs_set"
      and s: "s = summary_of st"
    by blast
  from final_state_skipped_ok [OF st abs] have ok: "skipped_ok e a abs_set st" .
  from ok s have n: "files_skipped s = int (length (summary_skipped_files s))"
    by (simp add: skipped_ok_def summary_of_def)
  from ok s have "\<forall>rel \<in> set (summary_skipped_files s).
      budget_skip e a abs_set (chars_copied s) (tokens_copied s) rel"
    by (simp add: skipped_ok_def summary_of_def list_all_iff)
  then have "\<forall>rel \<in> set (summary_skipped_files s).
               \<exists>file_path content chars tokens.
                 matched e a abs_set file_path rel content \<and>
                 0 \<le> chars \<and> chars \<le> chars_copied s \<and>
                 0 \<le> tokens \<and> tokens \<le> tokens_copied s \<and>
                 over_budget a rel content chars tokens"
    unfolding budget_skip_def .
  with n abs show ?thesis by blast
qed

theorem skipped_for_budget_witness:
  "collect_file_contents example_env
     (example_args [u ''*.txt''] [u ''/p/build/out.txt''] None (Some 20))
   = Inr (bundle_of [(u ''a.txt'', u ''hi'')],
          \<lparr>files_added = 1, chars_copied = 17, tokens_copied = 17, lines_added = 1,
           files_skipped = 2, lines_skipped = 2,
           summary_skipped_files = [u ''sub/c.txt'', u ''build/out.txt'']\<rparr>) \<and>
   2 = int (length [u ''sub/c.txt'', u ''build/out.txt'']) \<and>
   (\<exists>abs_set. explicit_files_abs example_env
        (example_args [u ''*.txt''] [u ''/p/build/out.txt''] None (Some 20)) = Inr abs_set \<and>
      (\<forall>rel \<in> set [u ''sub/c.txt'', u ''build/out.txt''].
         \<exists>file_path content chars tokens.
           matched example_env (example_args [u ''*.txt''] [u ''/p/build/out.txt''] None (Some 20))
             abs_set file_path rel content \<and>
           0 \<le> chars \<and> chars \<le> 17 \<and> 0 \<le> tokens \<and> tokens \<le> 17 \<and>
           over_budget (example_args [u ''*.txt''] [u ''/p/build/out.txt''] None (Some 20))
             rel content chars tokens))"
proof -
  note r = skipped_for_budget [OF example_run_small, unfolded summary.select_convs]
  from example_run_small r show ?thesis by (intro conjI) (elim conjE, assumption)+
qed



lemma resolve_all_Nil: "explicit_files_abs e a = Inr abs_set \<Longrightarrow> files a = [] \<Longrightarrow> abs_set = {}"
  by (auto simp add: explicit_files_abs_def)

lemma no_candidate:
  assumes "patterns a = []"
  shows "\<not> candidate e a {} st file_path rel content"
  using assms
  by (simp add: candidate_def matched_def matches_include_patterns_def split: option.splits)

lemma nothing_configured:
  assumes p: "patterns a = []" and f: "files a = []" and fin: "final_state e a = Inr st"
  shows "total_files_added st = 0"
proof -
  from final_state_abs [OF fin] obtain abs_set where abs: "explicit_files_abs e a = Inr abs_set"
    by blast
  from resolve_all_Nil [OF abs f] have empty: "abs_set = {}" .
  show ?thesis
  proof (rule final_state_pres [where P = "\<lambda>st. total_files_added st = 0", OF _ _ abs fin])
    show "total_files_added initial_state = 0" by (simp add: initial_state_def)
    show "\<forall>st file_path rel content st' fl.
        total_files_added st = 0 \<longrightarrow>
        candidate e a abs_set st file_path rel content \<longrightarrow>
        add_content e a st rel content = Inr (st', fl) \<longrightarrow> total_files_added st' = 0"
      unfolding empty using no_candidate [OF p] by blast
  qed
qed

lemma collect_nothing_configured:
  assumes "patterns a = []" and "files a = []" and "collect_file_contents e a = Inr (out, s)"
  shows "files_added s = 0"
proof -
  from collect_file_contents_final [OF assms(3)] obtain st
    where st: "final_state e a = Inr st" and s: "s = summary_of st"
    by blast
  from nothing_configured [OF assms(1,2) st] s show ?thesis by (simp add: summary_of_def)
qed

lemma files_added_nonneg:
  assumes "collect_file_contents e a = Inr (out, s)"
  shows "0 \<le> files_added s"
proof -
  from final_blocks [OF assms] obtain st abs_set blocks
    where s: "s = summary_of st" and c: "collected e a abs_set st blocks"
    by blast
  then show ?thesis by (simp add: collected_def summary_of_def)
qed

text \<open>
  Claim C4. \<open>copy\<close> puts a text on the clipboard if and only if the collection returns
  this text with at least one file collected (and the encoding was found and the
  clipboard took the text). When no pattern and no file is configured, the command
  reports the missing configuration and ends, and then the collection would not have
  collected a file either; when the collection returns with zero files, the command
  reports that there is nothing to copy and ends. Neither case writes to the clipboard.
\<close>

theorem clipboard_iff_collected:
  "(clipboard_write (perform_copy e ce c ca) = Some text \<longleftrightarrow>
      (\<exists>enc s. init_encoding e ce (arg_model ca) = Inr enc \<and>
         collect_file_contents e (collect_args c ca enc) = Inr (text, s) \<and>
         0 < files_added s \<and> clipboard_ok ce text)) \<and>
   (include_patterns c = [] \<and> explicit_files c = [] \<longrightarrow>
      perform_copy e ce c ca
        = (if stderr_ok e no_patterns_msg then Inr NoPatternsError else Inl PrintError)) \<and>
   (\<forall>enc out s.
      \<not> (include_patterns c = [] \<and> explicit_files c = []) \<and>
      init_encoding e ce (arg_model ca) = Inr enc \<and>
      collect_file_contents e (collect_args c ca enc) = Inr (out, s) \<and> files_added s = 0 \<longrightarrow>
      perform_copy e ce c ca
        = (if stderr_ok e no_files_msg then Inr NoFilesError else Inl PrintError))"
proof (intro conjI)
  show "clipboard_write (perform_copy e ce c ca) = Some text \<longleftrightarrow>
      (\<exists>enc s. init_encoding e ce (arg_model ca) = Inr enc \<and>
         collect_file_contents e (collect_args c ca enc) = Inr (text, s) \<and>
         0 < files_added s \<and> clipboard_ok ce text)"
  proof (cases "include_patterns c = [] \<and> explicit_files c = []")
    case True
    then have none: "clipboard_write (perform_copy e ce c ca) = None"
      by (simp add: perform_copy_def)
    have "\<not> 0 < files_added s"
      if "collect_file_contents e (collect_args c ca enc) = Inr (text, s)" for enc s
    proof -
      from True have "patterns (collect_args c ca enc) = []" "files (collect_args c ca enc) = []"
        by (simp_all add: collect_args_def)
      from collect_nothing_configured [OF this that] show ?thesis by simp
    qed
    with none show ?thesis by auto
  next
    case False
    show ?thesis
    proof (cases "init_encoding e ce (arg_model ca)")
      case (Inl err)
      with False show ?thesis by (simp add: perform_copy_def)
    next
      case (Inr enc)
      show ?thesis
      proof (cases "collect_file_contents e (collect_args c ca enc)")
        case (Inl err)
        with False Inr show ?thesis by (simp add: perform_copy_def)
      next
        case r: (Inr res)
        obtain out s where res: "res = (out, s)" by (cases res)
        from files_added_nonneg [OF r [unfolded res]] have nn: "0 \<le> files_added s" .
        with False Inr r res show ?thesis
          by (auto simp add: perform_copy_def)
      qed
    qed
  qed
next
  show "include_patterns c = [] \<and> explicit_files c = [] \<longrightarrow>
      perform_copy e ce c ca
        = (if stderr_ok e no_patterns_msg then Inr NoPatternsError else Inl PrintError)"
    by (simp add: perform_copy_def)
next
  show "\<forall>enc out s.
      \<not> (include_patterns c = [] \<and> explicit_files c = []) \<and>
      init_encoding e ce (arg_model ca) = Inr enc \<and>
      collect_file_contents e (collect_args c ca enc) = Inr (out, s) \<and> files_added s = 0 \<longrightarrow>
      perform_copy e ce c ca
        = (if stderr_ok e no_files_msg then Inr NoFilesError else Inl PrintError)"
    by (auto simp add: perform_copy_def)
qed


theorem clipboard_iff_collected_witness:
  "collect_file_contents example_env
     (collect_args example_config (example_copy_args None) (\<lambda>text. Some text))
   = Inr (bundle_of [(u ''a.txt'', u ''hi''), (u ''sub/c.txt'', u ''hi'')],
          \<lparr>files_added = 2, chars_copied = 38, tokens_copied = 38, lines_added = 2,
           files_skipped = 0, lines_skipped = 0, summary_skipped_files = []\<rparr>) \<and>
   clipboard_write (perform_copy example_env example_copy_env example_config (example_copy_args None))
   = Some (bundle_of [(u ''a.txt'', u ''hi''), (u ''sub/c.txt'', u ''hi'')]) \<and>
   collect_file_contents example_env
     (collect_args example_config (example_copy_args (Some 5)) (\<lambda>text. Some text))
   = Inr (bundle_of [],
          \<lparr>files_added = 0, chars_copied = 0, tokens_copied = 0, lines_added = 0,
           files_skipped = 2, lines_skipped = 2,
           summary_skipped_files = [u ''a.txt'', u ''sub/c.txt'']\<rparr>) \<and>
   perform_copy example_env example_copy_env example_config (example_copy_args (Some 5))
   = Inr NoFilesError \<and>
   perform_copy example_env example_copy_env \<lparr>include_patterns = [], explicit_files = []\<rparr>
     (example_copy_args None)
   = Inr NoPatternsError"
proof -
  let ?enc = "\<lambda>text :: str. Some text"
  let ?out = "bundle_of [(u ''a.txt'', u ''hi''), (u ''sub/c.txt'', u ''hi'')]"
  let ?two = "\<lparr>files_added = 2, chars_copied = 38, tokens_copied = 38, lines_added = 2,
           files_skipped = 0, lines_skipped = 0, summary_skipped_files = []\<rparr>"
  let ?zero = "\<lparr>files_added = 0, chars_copied = 0, tokens_copied = 0, lines_added = 0,
           files_skipped = 2, lines_skipped = 2,
           summary_skipped_files = [u ''a.txt'', u ''sub/c.txt'']\<rparr>"
  have enc: "init_encoding example_env example_copy_env (arg_model (example_copy_args mc)) = Inr ?enc"
    for mc
    by (simp add: init_encoding_def example_copy_env_def example_env_def)
  have args: "collect_args example_config (example_copy_args mc) ?enc
      = example_args [u ''*.txt''] [] None mc" for mc
    by (simp add: collect_args_def example_config_def example_copy_args_def example_args_def)
  have run: "collect_file_contents example_env
      (collect_args example_config (example_copy_args None) ?enc) = Inr (?out, ?two)"
    unfolding args by (rule example_run_globs)
  have run0: "collect_file_contents example_env
      (collect_args example_config (example_copy_args (Some 5)) ?enc) = Inr (bundle_of [], ?zero)"
    unfolding args by (rule example_run_none)
  have ok: "clipboard_ok example_copy_env ?out" by (simp add: example_copy_env_def)
  have pos: "0 < files_added ?two" by simp
  have zero: "files_added ?zero = 0" by simp
  have conf: "\<not> (include_patterns example_config = [] \<and> explicit_files example_config = [])"
    by (simp add: example_config_def)
  have p1: "stderr_ok example_env no_files_msg" and p2: "stderr_ok example_env no_patterns_msg"
    by (simp_all add: example_env_def)
  note t = clipboard_iff_collected [of example_env example_copy_env example_config
      "example_copy_args None" ?out]
  from enc [of None] run pos ok
  have "\<exists>enc s. init_encoding example_env example_copy_env (arg_model (example_copy_args None))
          = Inr enc \<and>
        collect_file_contents example_env (collect_args example_config (example_copy_args None) enc)
          = Inr (?out, s) \<and>
        0 < files_added s \<and> clipboard_ok example_copy_env ?out"
    by blast
  with t have w: "clipboard_write (perform_copy example_env example_copy_env example_config
      (example_copy_args None)) = Some ?out"
    by blast
  note t0 = clipboard_iff_collected [of example_env example_copy_env example_config
      "example_copy_args (Some 5)" "[]"]
  from t0 conf enc [of "Some 5"] run0 zero
  have "perform_copy example_env example_copy_env example_config (example_copy_args (Some 5))
      = (if stderr_ok example_env no_files_msg then Inr NoFilesError else Inl PrintError)"
    by blast
  with p1 have n: "perform_copy example_env example_copy_env example_config
      (example_copy_args (Some 5)) = Inr NoFilesError"
    by simp
  note t1 = clipboard_iff_collected [of example_env example_copy_env
      "\<lparr>include_patterns = [], explicit_files = []\<rparr>" "example_copy_args None" "[]"]
  have "include_patterns \<lparr>include_patterns = [], explicit_files = []\<rparr> = [] \<and>
        explicit_files \<lparr>include_patterns = [], explicit_files = []\<rparr> = []"
    by simp
  with t1 have "perform_copy example_env example_copy_env
      \<lparr>include_patterns = [], explicit_files = []\<rparr> (example_copy_args None)
      = (if stderr_ok example_env no_patterns_msg then Inr NoPatternsError else Inl PrintError)"
    by blast
  with p2 have m: "perform_copy example_env example_copy_env
      \<lparr>include_patterns = [], explicit_files = []\<rparr> (example_copy_args None) = Inr NoPatternsError"
    by simp
  from run w run0 n m show ?thesis by (intro conjI)
qed

section \<open>Properties of the reading of files\<close>

lemma decode_Ignore_scan: "decode Ignore bs = Some (without_malformed (scan_all bs))"
proof (induction bs rule: scan_all.induct)
  case 1
  show ?case by (simp add: without_malformed_def)
next
  case (2 b bs)
  show ?case
  proof (cases "utf8_scan (b # bs)")
    case (Char c n)
    with 2(1) [OF Char] show ?thesis
      by (simp del: utf8_scan.simps add: without_malformed_def)
  next
    case (Malformed n)
    with 2(2) [OF Malformed] show ?thesis
      by (simp del: utf8_scan.simps add: without_malformed_def)
  qed
qed

lemma decode_Replace_scan: "decode Replace bs = Some (with_replacement (scan_all bs))"
proof (induction bs rule: scan_all.induct)
  case 1
  show ?case by (simp add: with_replacement_def)
next
  case (2 b bs)
  show ?case
  proof (cases "utf8_scan (b # bs)")
    case (Char c n)
    with 2(1) [OF Char] show ?thesis
      by (simp del: utf8_scan.simps add: with_replacement_def)
  next
    case (Malformed n)
    with 2(2) [OF Malformed] show ?thesis
      by (simp del: utf8_scan.simps add: with_replacement_def)
  qed
qed

lemma decode_Strict_scan:
  "decode Strict bs = (if None \<in> set (scan_all bs) then None
                       else Some (without_malformed (scan_all bs)))"
proof (induction bs rule: scan_all.induct)
  case 1
  show ?case by (simp add: without_malformed_def)
next
  case (2 b bs)
  show ?case
  proof (cases "utf8_scan (b # bs)")
    case (Char c n)
    with 2(1) [OF Char] show ?thesis
      by (simp del: utf8_scan.simps add: without_malformed_def)
  next
    case (Malformed n)
    with 2(2) [OF Malformed] show ?thesis
      by (simp del: utf8_scan.simps add: without_malformed_def)
  qed
qed

text \<open>
  The claim as written fails: the byte \<open>0xFF\<close> between \<open>a\<close> and \<open>b\<close> is undecodable, and
  the text read is \<open>ab\<close>, without the replacement character that the \<open>replace\<close> handler
  puts in its place.
\<close>

theorem undecodable_byte_not_replaced:
  "read_text (\<lambda>file_path. Inr [0x61, 0xFF, 0x62]) (u ''f.txt'') = Inr [0x61, 0x62] \<and>
   decode Replace [0x61, 0xFF, 0x62] = Some [0x61, 0xFFFD, 0x62]"
  by (simp add: read_text_def NL_def)

text \<open>
  Claim C7, as amended. Decoding never fails: the text read from the bytes of a file
  is the text of the well-formed sequences, the undecodable bytes being dropped (it is
  the text that replacing would give without the replacement characters put for the
  malformed runs), with the line ends translated. Bytes that are well formed as a whole
  are read as the strict decoder reads them.
\<close>

theorem undecodable_bytes_dropped:
  "decode Ignore bs = Some (without_malformed (scan_all bs)) \<and>
   decode Replace bs = Some (with_replacement (scan_all bs)) \<and>
   (\<forall>text. decode Strict bs = Some text \<longrightarrow> decode Ignore bs = Some text) \<and>
   (file_bytes e file_path = Inr bs \<longrightarrow>
      read_text (file_bytes e) file_path
        = Inr (translate_newlines (without_malformed (scan_all bs))))"
  using decode_Ignore_scan [of bs] decode_Replace_scan [of bs] decode_Strict_scan [of bs]
  by (simp add: read_text_def split: if_splits)

theorem undecodable_bytes_dropped_witness:
  "scan_all [0x61, 0xFF, 0x0D, 0x0A, 0xC3, 0xA9] = [Some 0x61, None, Some 13, Some 10, Some 0xE9] \<and>
   decode Ignore [0x61, 0xFF, 0x0D, 0x0A, 0xC3, 0xA9] = Some [0x61, 13, 10, 0xE9] \<and>
   decode Replace [0x61, 0xFF, 0x0D, 0x0A, 0xC3, 0xA9] = Some [0x61, 0xFFFD, 13, 10, 0xE9] \<and>
   decode Strict [0x61, 0x0D, 0x0A, 0xC3, 0xA9] = Some [0x61, 13, 10, 0xE9] \<and>
   decode Ignore [0x61, 0x0D, 0x0A, 0xC3, 0xA9] = Some [0x61, 13, 10, 0xE9] \<and>
   read_text (file_bytes (example_env\<lparr>file_bytes :=
        (\<lambda>file_path. Inr [0x61, 0xFF, 0x0D, 0x0A, 0xC3, 0xA9])\<rparr>)) (u ''f.txt'')
     = Inr [0x61, 10, 0xE9]"
proof -
  let ?bs = "[0x61, 0xFF, 0x0D, 0x0A, 0xC3, 0xA9] :: nat list"
  let ?ok = "[0x61, 0x0D, 0x0A, 0xC3, 0xA9] :: nat list"
  have sc: "scan_all ?bs = [Some 0x61, None, Some 13, Some 10, Some 0xE9]"
    by (simp add: is_cont_def)
  have st: "decode Strict ?ok = Some [0x61, 13, 10, 0xE9]"
    by (simp add: is_cont_def)
  let ?e = "example_env\<lparr>file_bytes := (\<lambda>file_path. Inr ?bs)\<rparr>"
  note r = undecodable_bytes_dropped [of ?bs ?e "u ''f.txt''"]
  note r' = undecodable_bytes_dropped [of ?ok ?e "u ''f.txt''"]
  from r have i: "decode Ignore ?bs = Some [0x61, 13, 10, 0xE9]"
    unfolding sc by (simp add: without_malformed_def)
  from r have p: "decode Replace ?bs = Some [0x61, 0xFFFD, 13, 10, 0xE9]"
    unfolding sc by (simp add: with_replacement_def)
  from r' st have i': "decode Ignore ?ok = Some [0x61, 13, 10, 0xE9]"
    by blast
  have "file_bytes ?e (u ''f.txt'') = Inr ?bs" by simp
  with r have "read_text (file_bytes ?e) (u ''f.txt'')
      = Inr (translate_newlines (without_malformed (scan_all ?bs)))"
    by blast
  then have t: "read_text (file_bytes (example_env\<lparr>file_bytes := (\<lambda>file_path. Inr ?bs)\<rparr>))
      (u ''f.txt'') = Inr [0x61, 10, 0xE9]"
    unfolding sc by (simp add: without_malformed_def NL_def)
  from sc i p st i' t show ?thesis by (intro conjI)
qed

end
